theory Spec2Isabelle
  imports Main "HOL-Library.Word"
begin

unbundle bit_operations_syntax

section \<open>Outcomes of a call\<close>

text \<open>
  Python integers are unbounded, so every number of the driver is an \<open>int\<close>; the
  bitwise operators \<open>&\<close>, \<open>|\<close>, \<open>^\<close>, \<open>~\<close> and \<open><<\<close> are \<open>AND\<close>, \<open>OR\<close>, \<open>XOR\<close>,
  \<open>NOT\<close> and \<open>push_bit\<close> on \<open>int\<close> (two's complement on both sides).

  A call either returns a value, raises, or (for the polling loops of the scanner, which
  read the hardware until something happens) is still polling when the finite list of
  hardware samples handed to the model is used up: it has not returned.
\<close>

datatype error = IndexError

datatype 'a outcome = Returns 'a | Raises error | Starved

fun and_then :: "'a outcome \<Rightarrow> ('a \<Rightarrow> 'b outcome) \<Rightarrow> 'b outcome" where
  "and_then (Returns v) f = f v"
| "and_then (Raises e) f = Raises e"
| "and_then Starved f = Starved"

text \<open>
  Reading and writing a Python list by index: an index from \<open>-len\<close> to \<open>-1\<close> counts
  from the end, anything outside \<open>-len .. len - 1\<close> raises IndexError.
\<close>

definition getitem :: "int list \<Rightarrow> int \<Rightarrow> int outcome" where
  "getitem xs i =
     (if 0 \<le> i \<and> i < int (length xs) then Returns (xs ! nat i)
      else if - int (length xs) \<le> i \<and> i < 0 then Returns (xs ! nat (int (length xs) + i))
      else Raises IndexError)"

definition setitem :: "int list \<Rightarrow> int \<Rightarrow> int \<Rightarrow> int list outcome" where
  "setitem xs i v =
     (if 0 \<le> i \<and> i < int (length xs) then Returns (xs[nat i := v])
      else if - int (length xs) \<le> i \<and> i < 0 then Returns (xs[nat (int (length xs) + i) := v])
      else Raises IndexError)"

section \<open>ForthStack\<close>

text \<open>
  The fields \<open>_stackSize\<close>, \<open>_stackMask\<close>, \<open>_stack\<close> and \<open>_p\<close> of the class; a name
  cannot start with an underscore here, so the fields carry the prefix \<open>fs\<close>.
  \<open>fs_stack ! fs_p\<close> is the top of the stack.
\<close>

record ForthStack =
  fs_stackSize :: int
  fs_stackMask :: int
  fs_stack :: "int list"
  fs_p :: int

text \<open>\<open>__init__\<close>: \<open>[0] * stackSize\<close> is the empty list for a size below 1.\<close>

definition ForthStack_init :: "int \<Rightarrow> int \<Rightarrow> ForthStack" where
  "ForthStack_init stackSize stackMask =
     \<lparr>fs_stackSize = stackSize, fs_stackMask = stackMask,
      fs_stack = replicate (nat stackSize) 0, fs_p = 0\<rparr>"

definition push :: "int \<Rightarrow> ForthStack \<Rightarrow> ForthStack outcome" where
  "push n s =
     (let p' = (fs_p s + 1) AND fs_stackMask s
      in and_then (setitem (fs_stack s) p' n)
           (\<lambda>st. Returns (s\<lparr>fs_stack := st, fs_p := p'\<rparr>)))"

definition pop :: "ForthStack \<Rightarrow> (int \<times> ForthStack) outcome" where
  "pop s =
     and_then (getitem (fs_stack s) (fs_p s))
       (\<lambda>n. Returns (n, s\<lparr>fs_p := (fs_p s - 1) AND fs_stackMask s\<rparr>))"

definition drop_op :: "ForthStack \<Rightarrow> ForthStack outcome" where
  "drop_op s = and_then (pop s) (\<lambda>(n, s1). Returns s1)"

text \<open>\<open>back\<close>: \<open>for _ in range(1, self._stackSize)\<close> runs \<open>drop\<close> \<open>stackSize - 1\<close> times
  (no time at all for a size below 2).\<close>

fun drop_times :: "nat \<Rightarrow> ForthStack \<Rightarrow> ForthStack outcome" where
  "drop_times 0 s = Returns s"
| "drop_times (Suc k) s = and_then (drop_op s) (drop_times k)"

definition back_op :: "ForthStack \<Rightarrow> ForthStack outcome" where
  "back_op s = drop_times (nat (fs_stackSize s - 1)) s"

definition dup :: "ForthStack \<Rightarrow> ForthStack outcome" where
  "dup s = and_then (getitem (fs_stack s) (fs_p s)) (\<lambda>n. push n s)"

definition swap_op :: "ForthStack \<Rightarrow> ForthStack outcome" where
  "swap_op s =
     and_then (pop s) (\<lambda>(a, s1).
     and_then (pop s1) (\<lambda>(b, s2).
     and_then (push a s2) (\<lambda>s3.
     push b s3)))"

definition over :: "ForthStack \<Rightarrow> ForthStack outcome" where
  "over s =
     and_then (pop s) (\<lambda>(a, s1).
     and_then (pop s1) (\<lambda>(b, s2).
     and_then (push b s2) (\<lambda>s3.
     and_then (push a s3) (\<lambda>s4.
     push b s4))))"

text \<open>
  The four binary operations share one shape: \<open>a = self.pop()\<close>, then
  \<open>self._stack[self._p] = a <op> self._stack[self._p]\<close>, the right-hand side read
  before the store.
\<close>

definition binary_op :: "(int \<Rightarrow> int \<Rightarrow> int) \<Rightarrow> ForthStack \<Rightarrow> ForthStack outcome" where
  "binary_op f s =
     and_then (pop s) (\<lambda>(a, s1).
     and_then (getitem (fs_stack s1) (fs_p s1)) (\<lambda>t.
     and_then (setitem (fs_stack s1) (fs_p s1) (f a t)) (\<lambda>st.
     Returns (s1\<lparr>fs_stack := st\<rparr>))))"

definition add :: "ForthStack \<Rightarrow> ForthStack outcome" where
  "add s = binary_op (\<lambda>a t. a + t) s"

definition and_op :: "ForthStack \<Rightarrow> ForthStack outcome" where
  "and_op s = binary_op (\<lambda>a t. a AND t) s"

definition or_op :: "ForthStack \<Rightarrow> ForthStack outcome" where
  "or_op s = binary_op (\<lambda>a t. a OR t) s"

definition xor_op :: "ForthStack \<Rightarrow> ForthStack outcome" where
  "xor_op s = binary_op (\<lambda>a t. a XOR t) s"

definition unary_op :: "(int \<Rightarrow> int) \<Rightarrow> ForthStack \<Rightarrow> ForthStack outcome" where
  "unary_op f s =
     and_then (getitem (fs_stack s) (fs_p s)) (\<lambda>t.
     and_then (setitem (fs_stack s) (fs_p s) (f t)) (\<lambda>st.
     Returns (s\<lparr>fs_stack := st\<rparr>)))"

definition invert :: "ForthStack \<Rightarrow> ForthStack outcome" where
  "invert s = unary_op (\<lambda>t. NOT t) s"

definition negate :: "ForthStack \<Rightarrow> ForthStack outcome" where
  "negate s = unary_op (\<lambda>t. - t) s"

text \<open>
  A client of the class is a sequence of method calls. \<open>Pop\<close> discards the value it is
  given; what the stack is left as is what the next call sees.
\<close>

datatype forth_call =
  Push int | Pop | Drop | Back | Dup | Swap | Over | Add | And | Or | Xor | Invert | Negate

fun call :: "forth_call \<Rightarrow> ForthStack \<Rightarrow> ForthStack outcome" where
  "call (Push n) s = push n s"
| "call Pop s = and_then (pop s) (\<lambda>(n, s1). Returns s1)"
| "call Drop s = drop_op s"
| "call Back s = back_op s"
| "call Dup s = dup s"
| "call Swap s = swap_op s"
| "call Over s = over s"
| "call Add s = add s"
| "call And s = and_op s"
| "call Or s = or_op s"
| "call Xor s = xor_op s"
| "call Invert s = invert s"
| "call Negate s = negate s"

fun calls :: "forth_call list \<Rightarrow> ForthStack \<Rightarrow> ForthStack outcome" where
  "calls [] s = Returns s"
| "calls (c # cs) s = and_then (call c s) (calls cs)"

text \<open>
  The shape every method keeps: the list has \<open>n\<close> cells, the mask \<open>msk\<close> is not
  negative and below \<open>n\<close>, and the pointer lies between 0 and the mask.
\<close>

definition in_shape :: "nat \<Rightarrow> int \<Rightarrow> ForthStack \<Rightarrow> bool" where
  "in_shape n msk s =
     (fs_stackSize s = int n \<and> fs_stackMask s = msk \<and> length (fs_stack s) = n \<and>
      0 \<le> msk \<and> msk < int n \<and> 0 \<le> fs_p s \<and> fs_p s \<le> msk)"

section \<open>TinyMod4Machine\<close>

text \<open>
  What the board shows at one instant: \<open>io_input pin\<close> is what \<open>io.input(pin)\<close> returns
  (0 or 1 on the real library), \<open>read_byte_data addr reg\<close> what
  \<open>self._bus.read_byte_data(addr, reg)\<close> returns, and \<open>hw_setup_raises\<close> says that one of
  the hardware calls inside the \<open>try\<close> block of \<open>_connect\<close> (\<open>io.setup\<close>, \<open>smbus.SMBus\<close>,
  \<open>write_byte_data\<close>, \<open>io.input\<close>) raises. The reads of the scanner are taken to return.
\<close>

record hardware =
  hw_setup_raises :: bool
  io_input :: "int \<Rightarrow> int"
  read_byte_data :: "int \<Rightarrow> int \<Rightarrow> int"

text \<open>
  The base class keeps the state the driver reports; the model records which of
  \<open>_stopped\<close>, \<open>_initializing\<close>, \<open>_ready\<close> and \<open>_error\<close> was called last.
\<close>

datatype machine_state = St_stopped | St_initializing | St_ready | St_error

text \<open>
  The fields of the machine, with the prefix \<open>m\<close> for the underscore. \<open>m_keymap\<close> is
  \<open>self.keymap.keys_to_actions\<close>, a collaborator of the host; \<open>m_notified\<close> collects
  the arguments of \<open>self._notify\<close>, \<open>m_warnings\<close> those of \<open>log.warning\<close> and \<open>m_slept\<close>
  those of \<open>time.sleep\<close>, in milliseconds.
\<close>

record TinyMod4Machine =
  m_keymap :: "string list \<Rightarrow> string list"
  m_pressed :: bool
  m_stack :: ForthStack
  m_modeSelectPin :: int
  m_state :: machine_state
  m_notified :: "string list list"
  m_warnings :: "string list"
  m_slept :: "nat list"

definition TinyMod4Machine_init :: "(string list \<Rightarrow> string list) \<Rightarrow> TinyMod4Machine" where
  "TinyMod4Machine_init keymap =
     \<lparr>m_keymap = keymap, m_pressed = False, m_stack = ForthStack_init 8 7,
      m_modeSelectPin = 12, m_state = St_stopped, m_notified = [], m_warnings = [],
      m_slept = []\<rparr>"

definition warning :: "string \<Rightarrow> TinyMod4Machine \<Rightarrow> TinyMod4Machine" where
  "warning msg m = m\<lparr>m_warnings := m_warnings m @ [msg]\<rparr>"

definition sleep :: "nat \<Rightarrow> TinyMod4Machine \<Rightarrow> TinyMod4Machine" where
  "sleep ms m = m\<lparr>m_slept := m_slept m @ [ms]\<rparr>"

definition notify :: "string list \<Rightarrow> TinyMod4Machine \<Rightarrow> TinyMod4Machine" where
  "notify steno_keys m = m\<lparr>m_notified := m_notified m @ [steno_keys]\<rparr>"

subsection \<open>Connecting\<close>

text \<open>
  \<open>_connect\<close>. \<open>if io.input(self._modeSelectPin)\<close> takes the branch for every level
  other than 0; that branch warns, reports the error state and returns \<open>connected\<close>,
  still False.
\<close>

definition connect :: "hardware \<Rightarrow> TinyMod4Machine \<Rightarrow> bool \<times> TinyMod4Machine" where
  "connect h m =
     (let connected = False;
          m1 = m\<lparr>m_state := St_initializing\<rparr>
      in if hw_setup_raises h then
           (connected, (warning ''Error setting up TinyMod4'' m1)\<lparr>m_state := St_error\<rparr>)
         else if io_input h (m_modeSelectPin m1) \<noteq> 0 then
           (connected,
            (warning ''NKRO not selected on board. TinyMod4 plugin Disabled.'' m1)
              \<lparr>m_state := St_error\<rparr>)
         else (True, m1\<lparr>m_state := St_ready\<rparr>))"

text \<open>
  \<open>_reconnect\<close>. The \<open>return connected\<close> stands inside the body of the \<open>while\<close>, so the
  body runs at most once: the loop condition is tested once, after the first attempt,
  and when it holds the method sleeps half a second, tries once more and returns what
  that attempt gave. When the condition fails the method falls off its end and returns
  \<open>None\<close>. \<open>finished\<close> is \<open>self.finished.isSet()\<close> at that test; \<open>h1\<close> and \<open>h2\<close> are the
  board at the first and at the second attempt.
\<close>

definition reconnect ::
  "bool \<Rightarrow> hardware \<Rightarrow> hardware \<Rightarrow> TinyMod4Machine \<Rightarrow> bool option \<times> TinyMod4Machine" where
  "reconnect finished h1 h2 m =
     (let (connected, m1) = connect h1 m
      in if \<not> finished \<and> \<not> connected then
           (let m2 = sleep 500 m1;
                (connected, m3) = connect h2 m2
            in (Some connected, m3))
         else (None, m1))"

subsection \<open>Reading the keys\<close>

text \<open>
  \<open>_read_raw_keys\<close>: \<open>raw_bits\<close> is the local \<open>a\<close> after the nine \<open>|=\<close> lines,
  \<open>raw_keys\<close> after \<open>a ^= 0x01ff\<close>, the value pushed.
\<close>

definition raw_bits :: "hardware \<Rightarrow> int" where
  "raw_bits h =
     (let a = 0;
          a = a OR io_input h 16;
          a = a OR push_bit 1 (io_input h 20);
          a = a OR push_bit 2 (io_input h 21);
          a = a OR push_bit 3 (io_input h 1);
          a = a OR push_bit 4 (io_input h 26);
          a = a OR push_bit 5 (io_input h 19);
          a = a OR push_bit 6 (io_input h 13);
          a = a OR push_bit 7 (io_input h 6);
          a = a OR push_bit 8 (io_input h 0)
      in a)"

definition raw_keys :: "hardware \<Rightarrow> int" where
  "raw_keys h = raw_bits h XOR 0x01ff"

definition read_raw_keys :: "hardware \<Rightarrow> TinyMod4Machine \<Rightarrow> TinyMod4Machine outcome" where
  "read_raw_keys h m =
     and_then (push (raw_keys h) (m_stack m)) (\<lambda>s. Returns (m\<lparr>m_stack := s\<rparr>))"

text \<open>
  \<open>_read_ab\<close>: \<open>ab_word\<close> is the local \<open>a\<close> after \<open>a |= b << 8\<close>, \<open>ab_keys\<close> after
  \<open>a ^= 0xffff\<close>, the value pushed.
\<close>

definition ab_word :: "hardware \<Rightarrow> int" where
  "ab_word h =
     (let a = read_byte_data h 0x20 0x12;
          b = read_byte_data h 0x20 0x13
      in a OR push_bit 8 b)"

definition ab_keys :: "hardware \<Rightarrow> int" where
  "ab_keys h = ab_word h XOR 0xffff"

definition read_ab :: "hardware \<Rightarrow> TinyMod4Machine \<Rightarrow> TinyMod4Machine outcome" where
  "read_ab h m =
     and_then (push (ab_keys h) (m_stack m)) (\<lambda>s. Returns (m\<lparr>m_stack := s\<rparr>))"

text \<open>
  \<open>_read_all\<close>, in two steps: \<open>read_all_merged\<close> is the body up to
  \<open>a = self._stack.pop()\<close> and returns that local \<open>a\<close>, the merged mask, with the
  machine; \<open>read_all\<close> adds the final \<open>if a == 0: self._pressed = False\<close>.
\<close>

definition read_all_merged ::
  "hardware \<Rightarrow> TinyMod4Machine \<Rightarrow> (int \<times> TinyMod4Machine) outcome" where
  "read_all_merged h m =
     and_then (read_raw_keys h (m\<lparr>m_pressed := True\<rparr>)) (\<lambda>m1.
     and_then (read_ab h m1) (\<lambda>m2.
     and_then (over (m_stack m2)) (\<lambda>s3.
     and_then (over s3) (\<lambda>s4.
     and_then (or_op s4) (\<lambda>s5.
     and_then (pop s5) (\<lambda>(a, s6).
     Returns (a, m2\<lparr>m_stack := s6\<rparr>)))))))"

definition read_all :: "hardware \<Rightarrow> TinyMod4Machine \<Rightarrow> TinyMod4Machine outcome" where
  "read_all h m =
     and_then (read_all_merged h m) (\<lambda>(a, m1).
     Returns (if a = 0 then m1\<lparr>m_pressed := False\<rparr> else m1))"

subsection \<open>Scanning\<close>

text \<open>
  \<open>_scan\<close> reads the board until a chord has been pressed and released. The model is
  given the successive states of the board as a list, one element for each call of
  \<open>_read_all\<close>, and returns the samples it has not read; a loop that is still polling
  when the list is used up is \<open>Starved\<close>.

  \<open>poll_until_pressed\<close> is the inner \<open>while not self._pressed: self._read_all()\<close>.
\<close>

lemma and_then_cong [fundef_cong]:
  "x = y \<Longrightarrow> (\<And>v. y = Returns v \<Longrightarrow> f v = g v) \<Longrightarrow> and_then x f = and_then y g"
  by (cases y) simp_all

fun poll_until_pressed ::
  "hardware list \<Rightarrow> TinyMod4Machine \<Rightarrow> (TinyMod4Machine \<times> hardware list) outcome" where
  "poll_until_pressed [] m = (if \<not> m_pressed m then Starved else Returns (m, []))"
| "poll_until_pressed (h # hs) m =
     (if \<not> m_pressed m then and_then (read_all h m) (\<lambda>m1. poll_until_pressed hs m1)
      else Returns (m, h # hs))"

lemma poll_until_pressed_length:
  "poll_until_pressed hs m = Returns (m', hs') \<Longrightarrow> length hs' \<le> length hs"
proof (induction hs arbitrary: m)
  case Nil
  then show ?case by (simp split: if_splits)
next
  case (Cons h hs)
  show ?case
  proof (cases "m_pressed m")
    case True
    with Cons.prems show ?thesis by simp
  next
    case False
    with Cons.prems obtain m1 where "poll_until_pressed hs m1 = Returns (m', hs')"
      by (cases "read_all h m") auto
    from Cons.IH [OF this] show ?thesis by simp
  qed
qed

text \<open>
  The outer loop of the first phase: while nothing is pressed, poll until something is,
  sleep 30 ms and read once more; that last reading decides whether the loop goes round
  again.
\<close>

function wait_for_press ::
  "hardware list \<Rightarrow> TinyMod4Machine \<Rightarrow> (TinyMod4Machine \<times> hardware list) outcome" where
  "wait_for_press hs m =
     (if \<not> m_pressed m then
        and_then (poll_until_pressed hs m) (\<lambda>(m1, hs1).
        case hs1 of
          [] \<Rightarrow> Starved
        | h # hs2 \<Rightarrow> and_then (read_all h (sleep 30 m1)) (\<lambda>m2. wait_for_press hs2 m2))
      else Returns (m, hs))"
  by pat_completeness auto
termination
proof (relation "measure (\<lambda>(hs, m). length hs)")
  show "wf (measure (\<lambda>(hs, m). length hs))" by simp
next
  fix hs m x m1 hs1 h hs2 m2
  assume "poll_until_pressed hs m = Returns x" "(m1, hs1) = x" "hs1 = h # hs2"
  then have "length (h # hs2) \<le> length hs"
    using poll_until_pressed_length [of hs m m1 hs1] by simp
  then show "((hs2, m2), hs, m) \<in> measure (\<lambda>(hs, m). length hs)" by simp
qed

text \<open>
  The second phase, with the locals \<open>a\<close> and \<open>b\<close>: while something is pressed, read,
  then \<open>b |= self._stack.pop()\<close> and \<open>a |= self._stack.pop()\<close>.
\<close>

fun accumulate ::
  "hardware list \<Rightarrow> int \<Rightarrow> int \<Rightarrow> TinyMod4Machine \<Rightarrow>
     ((int \<times> int) \<times> TinyMod4Machine \<times> hardware list) outcome" where
  "accumulate [] a b m = (if m_pressed m then Starved else Returns ((a, b), m, []))"
| "accumulate (h # hs) a b m =
     (if m_pressed m then
        and_then (read_all h m) (\<lambda>m1.
        and_then (pop (m_stack m1)) (\<lambda>(v, s2).
        and_then (pop s2) (\<lambda>(w, s3).
        accumulate hs (a OR w) (b OR v) (m1\<lparr>m_stack := s3\<rparr>))))
      else Returns ((a, b), m, h # hs))"

definition scan ::
  "hardware list \<Rightarrow> TinyMod4Machine \<Rightarrow> (TinyMod4Machine \<times> hardware list) outcome" where
  "scan hs m =
     and_then (wait_for_press hs m) (\<lambda>(m1, hs1).
     and_then (accumulate hs1 0 0 m1) (\<lambda>((a, b), m2, hs2).
     and_then (push a (m_stack m2)) (\<lambda>s3.
     and_then (push b s3) (\<lambda>s4.
     Returns (m2\<lparr>m_stack := s4\<rparr>, hs2)))))"

subsection \<open>Decoding and sending\<close>

text \<open>
  \<open>_send\<close> builds the list \<open>keys\<close> with twenty-five lines of the shape
  \<open>if t: keys.append(k)\<close>. \<open>append_if\<close> is one such line and \<open>send_keys\<close> runs them in
  the order of the source, one row for each line.
\<close>

definition append_if :: "string list \<Rightarrow> int \<times> string \<Rightarrow> string list" where
  "append_if keys row = (if fst row \<noteq> 0 then keys @ [snd row] else keys)"

definition send_keys :: "int \<Rightarrow> int \<Rightarrow> string list" where
  "send_keys a b =
     foldl append_if []
       [(a AND 0x10, ''S1-''),
        (a AND 0x08, ''S2-''),
        (a AND 0x20, ''T-''),
        (a AND 0x04, ''K-''),
        (a AND 0x40, ''P-''),
        (a AND 0x02, ''W-''),
        (a AND 0x80, ''H-''),
        (a AND 0x01, ''R-''),
        (b AND 0x08, ''A-''),
        (b AND 0x10, ''O-''),
        (a AND 0x100, ''*1''),
        (b AND 0x200, ''*2''),
        (b AND 0x20, ''#1''),
        (b AND 0x40, ''-E''),
        (b AND 0x80, ''-U''),
        (b AND 0x8000, ''-F''),
        (b AND 0x01, ''-R''),
        (b AND 0x4000, ''-P''),
        (b AND 0x02, ''-B''),
        (b AND 0x2000, ''-L''),
        (b AND 0x04, ''-G''),
        (b AND 0x1000, ''-T''),
        (b AND 0x800, ''-S''),
        (b AND 0x100, ''-D''),
        (b AND 0x400, ''-Z'')]"

text \<open>\<open>_on_stroke\<close>: a list is true in Python when it is not empty.\<close>

definition on_stroke :: "string list \<Rightarrow> TinyMod4Machine \<Rightarrow> TinyMod4Machine" where
  "on_stroke keys m =
     (let steno_keys = m_keymap m keys
      in if steno_keys \<noteq> [] then notify steno_keys m else m)"

definition send :: "TinyMod4Machine \<Rightarrow> TinyMod4Machine outcome" where
  "send m =
     and_then (pop (m_stack m)) (\<lambda>(b, s1).
     and_then (pop s1) (\<lambda>(a, s2).
     let keys = send_keys a b;
         m1 = m\<lparr>m_stack := s2\<rparr>
     in Returns (if keys \<noteq> [] then on_stroke keys m1 else m1)))"

subsection \<open>A board for the examples\<close>

text \<open>
  The board with the listed direct pins held low, their keys pressed; every other direct
  pin reads high and both registers of the expander read 0xff, no key pressed there.
\<close>

definition board :: "int list \<Rightarrow> hardware" where
  "board low_pins =
     \<lparr>hw_setup_raises = False,
      io_input = (\<lambda>pin. if pin \<in> set low_pins then 0 else 1),
      read_byte_data = (\<lambda>addr reg. 0xff)\<rparr>"

section \<open>TinyMod4Extension\<close>

text \<open>
  An entry of \<open>self._buffer\<close> is a dictionary with a \<open>type\<close> and one payload:
  \<open>Text s\<close> is \<open>{"type": "string", "string": s}\<close>, \<open>Backspace b\<close> is
  \<open>{"type": "backspace", "backspace": b}\<close> and \<open>KeyCombo c\<close> is
  \<open>{"type": "keycombo", "keycombo": c}\<close>.
\<close>

datatype OutputAction = Text string | Backspace int | KeyCombo string

type_synonym byte = "8 word"

text \<open>
  The fields of the extension, with the prefix \<open>x\<close> for the underscore. \<open>x_device\<close>
  collects the arguments of \<open>f.write\<close> on \<open>/dev/hidg0\<close>, one element for each call, in
  order (the device is taken to accept every write); \<open>x_log\<close> collects those of
  \<open>log.info\<close> in \<open>run\<close>.
\<close>

record TinyMod4Extension =
  x_buffer :: "OutputAction list"
  x_device :: "byte list list"
  x_log :: "string list"

definition TinyMod4Extension_init :: TinyMod4Extension where
  "TinyMod4Extension_init = \<lparr>x_buffer = [], x_device = [], x_log = []\<rparr>"

subsection \<open>The lookup table\<close>

definition NO_MOD :: byte where "NO_MOD = 0x00"
definition L_CTRL :: byte where "L_CTRL = 0x01"
definition L_SHIFT :: byte where "L_SHIFT = 0x02"
definition L_ALT :: byte where "L_ALT = 0x04"
definition L_META :: byte where "L_META = 0x08"
definition R_CTRL :: byte where "R_CTRL = 0x10"
definition R_SHIFT :: byte where "R_SHIFT = 0x20"
definition R_ALT :: byte where "R_ALT = 0x40"
definition R_META :: byte where "R_META = 0x80"

text \<open>
  \<open>self._hid_lut\<close>, row by row as the source has it. No key occurs twice. A character of
  a Python string is modelled by a \<open>char\<close>; every key of the table is ASCII. The
  characters written with a code are newline, backspace, tab, the backslash, the two
  quotes and the backtick.
\<close>

definition hid_lut_rows :: "(char \<times> byte \<times> byte) list" where
  "hid_lut_rows =
     [(CHR ''a'', (NO_MOD, 4)), (CHR ''b'', (NO_MOD, 5)), (CHR ''c'', (NO_MOD, 6)),
      (CHR ''d'', (NO_MOD, 7)), (CHR ''e'', (NO_MOD, 8)), (CHR ''f'', (NO_MOD, 9)),
      (CHR ''g'', (NO_MOD, 10)), (CHR ''h'', (NO_MOD, 11)), (CHR ''i'', (NO_MOD, 12)),
      (CHR ''j'', (NO_MOD, 13)), (CHR ''k'', (NO_MOD, 14)), (CHR ''l'', (NO_MOD, 15)),
      (CHR ''m'', (NO_MOD, 16)), (CHR ''n'', (NO_MOD, 17)), (CHR ''o'', (NO_MOD, 18)),
      (CHR ''p'', (NO_MOD, 19)), (CHR ''q'', (NO_MOD, 20)), (CHR ''r'', (NO_MOD, 21)),
      (CHR ''s'', (NO_MOD, 22)), (CHR ''t'', (NO_MOD, 23)), (CHR ''u'', (NO_MOD, 24)),
      (CHR ''v'', (NO_MOD, 25)), (CHR ''w'', (NO_MOD, 26)), (CHR ''x'', (NO_MOD, 27)),
      (CHR ''y'', (NO_MOD, 28)), (CHR ''z'', (NO_MOD, 29)), (CHR ''A'', (L_SHIFT, 4)),
      (CHR ''B'', (L_SHIFT, 5)), (CHR ''C'', (L_SHIFT, 6)), (CHR ''D'', (L_SHIFT, 7)),
      (CHR ''E'', (L_SHIFT, 8)), (CHR ''F'', (L_SHIFT, 9)), (CHR ''G'', (L_SHIFT, 10)),
      (CHR ''H'', (L_SHIFT, 11)), (CHR ''I'', (L_SHIFT, 12)), (CHR ''J'', (L_SHIFT, 13)),
      (CHR ''K'', (L_SHIFT, 14)), (CHR ''L'', (L_SHIFT, 15)), (CHR ''M'', (L_SHIFT, 16)),
      (CHR ''N'', (L_SHIFT, 17)), (CHR ''O'', (L_SHIFT, 18)), (CHR ''P'', (L_SHIFT, 19)),
      (CHR ''Q'', (L_SHIFT, 20)), (CHR ''R'', (L_SHIFT, 21)), (CHR ''S'', (L_SHIFT, 22)),
      (CHR ''T'', (L_SHIFT, 23)), (CHR ''U'', (L_SHIFT, 24)), (CHR ''V'', (L_SHIFT, 25)),
      (CHR ''W'', (L_SHIFT, 26)), (CHR ''X'', (L_SHIFT, 27)), (CHR ''Y'', (L_SHIFT, 28)),
      (CHR ''Z'', (L_SHIFT, 29)), (CHR ''1'', (NO_MOD, 30)), (CHR ''2'', (NO_MOD, 31)),
      (CHR ''3'', (NO_MOD, 32)), (CHR ''4'', (NO_MOD, 33)), (CHR ''5'', (NO_MOD, 34)),
      (CHR ''6'', (NO_MOD, 35)), (CHR ''7'', (NO_MOD, 36)), (CHR ''8'', (NO_MOD, 37)),
      (CHR ''9'', (NO_MOD, 38)), (CHR ''0'', (NO_MOD, 39)), (CHR ''!'', (NO_MOD, 30)),
      (CHR ''@'', (L_SHIFT, 31)), (CHR ''#'', (L_SHIFT, 32)), (CHR ''$'', (L_SHIFT, 33)),
      (CHR ''%'', (L_SHIFT, 34)), (CHR ''^'', (L_SHIFT, 35)), (CHR ''&'', (L_SHIFT, 36)),
      (CHR ''*'', (L_SHIFT, 37)), (CHR ''('', (L_SHIFT, 38)), (CHR '')'', (L_SHIFT, 39)),
      (CHR 0x0A, (NO_MOD, 40)), (CHR 0x08, (NO_MOD, 42)), (CHR 0x09, (NO_MOD, 43)),
      (CHR '' '', (NO_MOD, 44)), (CHR ''-'', (NO_MOD, 45)), (CHR ''_'', (L_SHIFT, 45)),
      (CHR ''='', (NO_MOD, 46)), (CHR ''+'', (L_SHIFT, 46)), (CHR ''['', (NO_MOD, 47)),
      (CHR ''{'', (L_SHIFT, 47)), (CHR '']'', (NO_MOD, 48)), (CHR ''}'', (L_SHIFT, 48)),
      (CHR 0x5C, (NO_MOD, 49)), (CHR ''|'', (L_SHIFT, 49)), (CHR '';'', (NO_MOD, 51)),
      (CHR '':'', (L_SHIFT, 51)), (CHR 0x27, (NO_MOD, 52)), (CHR 0x22, (L_SHIFT, 52)),
      (CHR 0x60, (NO_MOD, 53)), (CHR ''~'', (L_SHIFT, 53)), (CHR '','', (NO_MOD, 54)),
      (CHR ''<'', (L_SHIFT, 54)), (CHR ''.'', (NO_MOD, 55)), (CHR ''>'', (L_SHIFT, 55)),
      (CHR ''/'', (NO_MOD, 56)), (CHR ''?'', (L_SHIFT, 56))]"

definition hid_lut :: "char \<Rightarrow> (byte \<times> byte) option" where
  "hid_lut = map_of hid_lut_rows"

subsection \<open>Packing a report\<close>

text \<open>
  \<open>struct.pack\<close> without a byte-order mark uses the sizes and the alignment of the
  platform. \<open>B\<close> is one byte and \<open>Q\<close> eight on every platform; \<open>L\<close>, the C
  \<open>unsigned long\<close>, is \<open>long_size\<close> bytes, 4 on the 32-bit Raspberry Pi Zero the driver
  is written for and 8 on 64-bit Linux, and is aligned to its size, so padding follows
  the four \<open>B\<close> bytes where needed. The bytes of a number are written low byte first.
  The byte arguments are typed \<open>byte\<close>: the table and the constants of \<open>run\<close> hold no
  value beyond 255, for which \<open>struct.pack\<close> would raise.
\<close>

fun le_bytes :: "nat \<Rightarrow> nat \<Rightarrow> byte list" where
  "le_bytes 0 v = []"
| "le_bytes (Suc n) v = of_nat (v mod 256) # le_bytes n (v div 256)"

definition pack_BBBBL :: "nat \<Rightarrow> byte \<Rightarrow> byte \<Rightarrow> byte \<Rightarrow> byte \<Rightarrow> nat \<Rightarrow> byte list" where
  "pack_BBBBL long_size b0 b1 b2 b3 l =
     [b0, b1, b2, b3] @ replicate ((long_size - 4 mod long_size) mod long_size) 0
       @ le_bytes long_size l"

definition pack_Q :: "nat \<Rightarrow> byte list" where
  "pack_Q q = le_bytes 8 q"

subsection \<open>The callbacks\<close>

text \<open>
  \<open>self._buffer.insert(0, action)\<close> puts the action in front of the list. The
  \<open>self._notify()\<close> that follows wakes the worker and changes no field.
\<close>

definition send_string :: "string \<Rightarrow> TinyMod4Extension \<Rightarrow> TinyMod4Extension" where
  "send_string s x = x\<lparr>x_buffer := Text s # x_buffer x\<rparr>"

definition send_backspaces :: "int \<Rightarrow> TinyMod4Extension \<Rightarrow> TinyMod4Extension" where
  "send_backspaces b x = x\<lparr>x_buffer := Backspace b # x_buffer x\<rparr>"

definition send_key_combination :: "string \<Rightarrow> TinyMod4Extension \<Rightarrow> TinyMod4Extension" where
  "send_key_combination c x = x\<lparr>x_buffer := KeyCombo c # x_buffer x\<rparr>"

text \<open>The callback the host calls for an action of each kind.\<close>

fun enqueue :: "OutputAction \<Rightarrow> TinyMod4Extension \<Rightarrow> TinyMod4Extension" where
  "enqueue (Text s) x = send_string s x"
| "enqueue (Backspace b) x = send_backspaces b x"
| "enqueue (KeyCombo c) x = send_key_combination c x"

subsection \<open>The worker\<close>

text \<open>
  The \<open>for char in list(action["string"])\<close> loop on the open file \<open>f\<close>: the lookup
  raises KeyError for a character that is not in the table, and the \<open>except\<close> branch
  writes the fallback report. \<open>mod'\<close> is the local \<open>mod\<close>.
\<close>

fun write_string :: "nat \<Rightarrow> string \<Rightarrow> byte list list \<Rightarrow> byte list list" where
  "write_string long_size [] f = f"
| "write_string long_size (char # rest) f =
     write_string long_size rest
       (case hid_lut char of
          Some (mod', key) \<Rightarrow>
            f @ [pack_BBBBL long_size mod' 0x00 key 0x00 0x00000000] @ [pack_Q 0]
        | None \<Rightarrow>
            f @ [pack_BBBBL long_size NO_MOD 0x00 56 0x00 0x00000000] @ [pack_Q 0])"

text \<open>The \<open>for b in range(action["backspace"])\<close> loop, \<open>n\<close> rounds to go.\<close>

fun write_backspaces :: "nat \<Rightarrow> nat \<Rightarrow> byte list list \<Rightarrow> byte list list" where
  "write_backspaces long_size 0 f = f"
| "write_backspaces long_size (Suc n) f =
     write_backspaces long_size n
       (f @ [pack_BBBBL long_size NO_MOD 0x00 42 0x00 0x00000000] @ [pack_Q 0])"

text \<open>
  The body of the drain loop after the pop, one branch for each \<open>type\<close>.
  \<open>range(b)\<close> is empty for a \<open>b\<close> below 1.
\<close>

fun process :: "nat \<Rightarrow> OutputAction \<Rightarrow> TinyMod4Extension \<Rightarrow> TinyMod4Extension" where
  "process long_size (Text s) x = x\<lparr>x_device := write_string long_size s (x_device x)\<rparr>"
| "process long_size (Backspace b) x =
     x\<lparr>x_device := write_backspaces long_size (nat b) (x_device x)\<rparr>"
| "process long_size (KeyCombo c) x = x\<lparr>x_log := x_log x @ [''send_keycombo: '' @ c]\<rparr>"

lemma x_buffer_process: "x_buffer (process long_size action x) = x_buffer x"
  by (cases action) simp_all

text \<open>
  The inner loop of \<open>run\<close>: \<open>while len(self._buffer) > 0\<close>, with
  \<open>action = self._buffer.pop()\<close>, which takes the last element of the list.
\<close>

function drain :: "nat \<Rightarrow> TinyMod4Extension \<Rightarrow> TinyMod4Extension" where
  "drain long_size x =
     (if length (x_buffer x) > 0 then
        drain long_size
          (process long_size (last (x_buffer x)) (x\<lparr>x_buffer := butlast (x_buffer x)\<rparr>))
      else x)"
  by pat_completeness auto
termination
  by (relation "measure (\<lambda>(long_size, x). length (x_buffer x))")
     (auto simp: x_buffer_process)

section \<open>The stack never faults\<close>

lemma push_in_shape:
  assumes "in_shape n msk s"
  shows "\<exists>s'. push v s = Returns s' \<and> in_shape n msk s'"
proof -
  let ?q = "(fs_p s + 1) AND msk"
  from assms have m: "0 \<le> msk" "msk < int n" and len: "length (fs_stack s) = n"
    and mk: "fs_stackMask s = msk"
    by (simp_all add: in_shape_def)
  have lo: "0 \<le> ?q" using m(1) by (simp add: and_nonnegative_int_iff)
  have hi: "?q \<le> msk" using m(1) by (rule AND_upper2)
  have "setitem (fs_stack s) ?q v = Returns ((fs_stack s)[nat ?q := v])"
    using lo hi m(2) len by (simp add: setitem_def)
  then have "push v s = Returns (s\<lparr>fs_stack := (fs_stack s)[nat ?q := v], fs_p := ?q\<rparr>)"
    by (simp add: push_def mk Let_def)
  moreover have "in_shape n msk (s\<lparr>fs_stack := (fs_stack s)[nat ?q := v], fs_p := ?q\<rparr>)"
    using assms lo hi by (simp add: in_shape_def)
  ultimately show ?thesis by blast
qed

lemma pop_in_shape:
  assumes "in_shape n msk s"
  shows "\<exists>v s'. pop s = Returns (v, s') \<and> in_shape n msk s'"
proof -
  let ?q = "(fs_p s - 1) AND msk"
  from assms have m: "0 \<le> msk" "msk < int n" and len: "length (fs_stack s) = n"
    and mk: "fs_stackMask s = msk" and p: "0 \<le> fs_p s" "fs_p s \<le> msk"
    by (simp_all add: in_shape_def)
  have lo: "0 \<le> ?q" using m(1) by (simp add: and_nonnegative_int_iff)
  have hi: "?q \<le> msk" using m(1) by (rule AND_upper2)
  have "getitem (fs_stack s) (fs_p s) = Returns (fs_stack s ! nat (fs_p s))"
    using p m(2) len by (simp add: getitem_def)
  then have "pop s = Returns (fs_stack s ! nat (fs_p s), s\<lparr>fs_p := ?q\<rparr>)"
    by (simp add: pop_def mk)
  moreover have "in_shape n msk (s\<lparr>fs_p := ?q\<rparr>)"
    using assms lo hi by (simp add: in_shape_def)
  ultimately show ?thesis by blast
qed

lemma drop_in_shape:
  "in_shape n msk s \<Longrightarrow> \<exists>s'. drop_op s = Returns s' \<and> in_shape n msk s'"
  using pop_in_shape [of n msk s] by (auto simp: drop_op_def)

lemma drop_times_in_shape:
  "in_shape n msk s \<Longrightarrow> \<exists>s'. drop_times k s = Returns s' \<and> in_shape n msk s'"
proof (induction k arbitrary: s)
  case 0
  then show ?case by simp
next
  case (Suc k)
  from drop_in_shape [OF Suc.prems] obtain s1
    where "drop_op s = Returns s1" "in_shape n msk s1" by blast
  with Suc.IH [of s1] show ?case by simp
qed

lemma top_read_in_shape:
  assumes "in_shape n msk s"
  shows "getitem (fs_stack s) (fs_p s) = Returns (fs_stack s ! nat (fs_p s))"
  using assms by (simp add: in_shape_def getitem_def)

lemma top_write_in_shape:
  assumes "in_shape n msk s"
  shows "setitem (fs_stack s) (fs_p s) v = Returns ((fs_stack s)[nat (fs_p s) := v])"
    and "in_shape n msk (s\<lparr>fs_stack := (fs_stack s)[nat (fs_p s) := v]\<rparr>)"
  using assms by (simp_all add: in_shape_def setitem_def)

lemma dup_in_shape:
  "in_shape n msk s \<Longrightarrow> \<exists>s'. dup s = Returns s' \<and> in_shape n msk s'"
  using push_in_shape [of n msk s] by (simp add: dup_def top_read_in_shape)

lemma swap_in_shape:
  assumes "in_shape n msk s"
  shows "\<exists>s'. swap_op s = Returns s' \<and> in_shape n msk s'"
proof -
  from pop_in_shape [OF assms] obtain a s1
    where 1: "pop s = Returns (a, s1)" "in_shape n msk s1" by blast
  from pop_in_shape [OF 1(2)] obtain b s2
    where 2: "pop s1 = Returns (b, s2)" "in_shape n msk s2" by blast
  from push_in_shape [OF 2(2)] obtain s3
    where 3: "push a s2 = Returns s3" "in_shape n msk s3" by blast
  from push_in_shape [OF 3(2)] obtain s4
    where 4: "push b s3 = Returns s4" "in_shape n msk s4" by blast
  show ?thesis using 1 2 3 4 by (simp add: swap_op_def)
qed

lemma over_in_shape:
  assumes "in_shape n msk s"
  shows "\<exists>s'. over s = Returns s' \<and> in_shape n msk s'"
proof -
  from pop_in_shape [OF assms] obtain a s1
    where 1: "pop s = Returns (a, s1)" "in_shape n msk s1" by blast
  from pop_in_shape [OF 1(2)] obtain b s2
    where 2: "pop s1 = Returns (b, s2)" "in_shape n msk s2" by blast
  from push_in_shape [OF 2(2)] obtain s3
    where 3: "push b s2 = Returns s3" "in_shape n msk s3" by blast
  from push_in_shape [OF 3(2)] obtain s4
    where 4: "push a s3 = Returns s4" "in_shape n msk s4" by blast
  from push_in_shape [OF 4(2)] obtain s5
    where 5: "push b s4 = Returns s5" "in_shape n msk s5" by blast
  show ?thesis using 1 2 3 4 5 by (simp add: over_def)
qed

lemma binary_in_shape:
  assumes "in_shape n msk s"
  shows "\<exists>s'. binary_op f s = Returns s' \<and> in_shape n msk s'"
proof -
  from pop_in_shape [OF assms] obtain a s1
    where 1: "pop s = Returns (a, s1)" "in_shape n msk s1" by blast
  show ?thesis
    using 1(1) top_read_in_shape [OF 1(2)] top_write_in_shape [OF 1(2)]
    by (simp add: binary_op_def)
qed

lemma unary_in_shape:
  assumes "in_shape n msk s"
  shows "\<exists>s'. unary_op f s = Returns s' \<and> in_shape n msk s'"
  using top_read_in_shape [OF assms] top_write_in_shape [OF assms]
  by (simp add: unary_op_def)

lemma call_in_shape:
  assumes "in_shape n msk s"
  shows "\<exists>s'. call c s = Returns s' \<and> in_shape n msk s'"
proof (cases c)
  case (Push v)
  then show ?thesis using push_in_shape [OF assms] by simp
next
  case Pop
  then show ?thesis using pop_in_shape [OF assms] by auto
next
  case Drop
  then show ?thesis using drop_in_shape [OF assms] by simp
next
  case Back
  then show ?thesis using drop_times_in_shape [OF assms] by (simp add: back_op_def)
next
  case Dup
  then show ?thesis using dup_in_shape [OF assms] by simp
next
  case Swap
  then show ?thesis using swap_in_shape [OF assms] by simp
next
  case Over
  then show ?thesis using over_in_shape [OF assms] by simp
next
  case Add
  then show ?thesis using binary_in_shape [OF assms] by (simp add: add_def)
next
  case And
  then show ?thesis using binary_in_shape [OF assms] by (simp add: and_op_def)
next
  case Or
  then show ?thesis using binary_in_shape [OF assms] by (simp add: or_op_def)
next
  case Xor
  then show ?thesis using binary_in_shape [OF assms] by (simp add: xor_op_def)
next
  case Invert
  then show ?thesis using unary_in_shape [OF assms] by (simp add: invert_def)
next
  case Negate
  then show ?thesis using unary_in_shape [OF assms] by (simp add: negate_def)
qed

lemma calls_in_shape:
  "in_shape n msk s \<Longrightarrow> \<exists>s'. calls cs s = Returns s' \<and> in_shape n msk s'"
proof (induction cs arbitrary: s)
  case Nil
  then show ?case by simp
next
  case (Cons c cs)
  from call_in_shape [OF Cons.prems] obtain s1
    where "call c s = Returns s1" "in_shape n msk s1" by blast
  with Cons.IH [of s1] show ?case by simp
qed

lemma init_in_shape: "in_shape (2 ^ k) (2 ^ k - 1) (ForthStack_init (2 ^ k) (2 ^ k - 1))"
  by (simp add: in_shape_def ForthStack_init_def)

text \<open>
  Claim C9. On a stack built with a size that is a power of two and the mask one below
  it, every sequence of calls of the thirteen methods returns: no read or write of the
  list raises IndexError, the list keeps its \<open>2 ^ k\<close> cells, and the pointer stays
  between 0 and \<open>2 ^ k - 1\<close>. The sequence is arbitrary, so the bound holds after every
  prefix of it too, which covers the states between the pushes and pops a composite
  method (\<open>swap\<close>, \<open>over\<close>, \<open>back\<close>) is made of.
\<close>

theorem forth_stack_never_faults:
  "\<exists>s'. calls cs (ForthStack_init (2 ^ k) (2 ^ k - 1)) = Returns s' \<and>
        length (fs_stack s') = 2 ^ k \<and> 0 \<le> fs_p s' \<and> fs_p s' \<le> 2 ^ k - 1"
  using calls_in_shape [OF init_in_shape, of cs k] by (auto simp: in_shape_def)

theorem forth_stack_never_faults_witness:
  "\<exists>s'. calls [Pop, Back, Push 5, Over, Swap, Add, Negate, Drop, Drop, Drop]
          (ForthStack_init 8 7) = Returns s' \<and>
        length (fs_stack s') = 8 \<and> 0 \<le> fs_p s' \<and> fs_p s' \<le> 7"
  using forth_stack_never_faults [of "[Pop, Back, Push 5, Over, Swap, Add, Negate, Drop, Drop, Drop]" 3]
  by simp

section \<open>The output queue and the HID reports\<close>

lemma le_bytes_zero: "le_bytes n 0 = replicate n 0"
  by (induction n) simp_all
lemma pack_Q_zero: "pack_Q 0 = [0, 0, 0, 0, 0, 0, 0, 0]"
  by (simp add: pack_Q_def le_bytes_zero numeral_eq_Suc)
lemma pack_BBBBL_long4: "pack_BBBBL 4 b0 b1 b2 b3 0 = [b0, b1, b2, b3, 0, 0, 0, 0]"
  by (simp add: pack_BBBBL_def le_bytes_zero numeral_eq_Suc)
lemma write_string_step:
  "write_string 4 (c # s) f =
     write_string 4 s (f @ (case hid_lut c of
         Some (m, k) \<Rightarrow> [[m, 0, k, 0, 0, 0, 0, 0], [0, 0, 0, 0, 0, 0, 0, 0]]
       | None \<Rightarrow> [[NO_MOD, 0, 56, 0, 0, 0, 0, 0], [0, 0, 0, 0, 0, 0, 0, 0]]))"
  by (simp add: pack_Q_zero pack_BBBBL_long4 split: option.split)

declare drain.simps [simp del]

lemma hid_lut_a: "hid_lut CHR ''a'' = Some (NO_MOD, 4)"
  by (simp add: hid_lut_def hid_lut_rows_def)

lemma hid_lut_b: "hid_lut CHR ''b'' = Some (NO_MOD, 5)"
  by (simp add: hid_lut_def hid_lut_rows_def)

lemma write_string_long4:
  "write_string 4 s f =
     f @ concat (map (\<lambda>c. case hid_lut c of
                         Some (m, k) \<Rightarrow> [[m, 0, k, 0, 0, 0, 0, 0], [0, 0, 0, 0, 0, 0, 0, 0]]
                       | None \<Rightarrow> [[NO_MOD, 0, 56, 0, 0, 0, 0, 0], [0, 0, 0, 0, 0, 0, 0, 0]]) s)"
proof (induction s arbitrary: f)
  case Nil
  show ?case by simp
next
  case (Cons c s)
  show ?case
    unfolding write_string_step Cons.IH by simp
qed

lemma enqueue_buffer: "enqueue a x = x\<lparr>x_buffer := a # x_buffer x\<rparr>"
  by (cases a) (simp_all add: send_string_def send_backspaces_def send_key_combination_def)

lemma enqueue_all:
  "foldl (\<lambda>x a. enqueue a x) x acts = x\<lparr>x_buffer := rev acts @ x_buffer x\<rparr>"
  by (induction acts arbitrary: x) (simp_all add: enqueue_buffer)

lemma process_empty_buffer:
  "(process l a (x\<lparr>x_buffer := bs\<rparr>))\<lparr>x_buffer := []\<rparr> = process l a (x\<lparr>x_buffer := []\<rparr>)"
  by (cases a) simp_all

lemma drain_buffer:
  "x_buffer x = buf \<Longrightarrow>
   drain l x = foldl (\<lambda>x a. process l a x) (x\<lparr>x_buffer := []\<rparr>) (rev buf)"
proof (induction buf arbitrary: x rule: rev_induct)
  case Nil
  then show ?case by (simp add: drain.simps [of l x])
next
  case (snoc a bs)
  let ?x1 = "process l a (x\<lparr>x_buffer := bs\<rparr>)"
  have "x_buffer ?x1 = bs" by (simp add: x_buffer_process)
  from snoc.IH [OF this] have "drain l ?x1 =
      foldl (\<lambda>x a. process l a x) (process l a (x\<lparr>x_buffer := []\<rparr>)) (rev bs)"
    by (simp add: process_empty_buffer)
  moreover have "drain l x = drain l ?x1"
    using snoc.prems by (simp add: drain.simps [of l x])
  ultimately show ?case by simp
qed

lemma pack_BBBBL_long8_replicate:
  "pack_BBBBL 8 b0 b1 b2 b3 0 = [b0, b1, b2, b3] @ replicate 12 0"
  by (simp add: pack_BBBBL_def le_bytes_zero replicate_add [symmetric])

lemma pack_BBBBL_long8:
  "pack_BBBBL 8 b0 b1 b2 b3 0 = [b0, b1, b2, b3, 0, 0, 0, 0, 0, 0, 0, 0, 0, 0, 0, 0]"
  unfolding pack_BBBBL_long8_replicate by (simp add: numeral_eq_Suc)

lemma hid_lut_soh: "hid_lut (CHR 0x01) = None"
  by (simp add: hid_lut_def hid_lut_rows_def)

lemma drain_one_text:
  "x_device (drain l (send_string s TinyMod4Extension_init)) = write_string l s []"
proof -
  have "x_buffer (send_string s TinyMod4Extension_init) = [Text s]"
    by (simp add: send_string_def TinyMod4Extension_init_def)
  from drain_buffer [OF this, of l] show ?thesis
    by (simp add: send_string_def TinyMod4Extension_init_def)
qed


text \<open>
  Claim C1, as the code has it. The callbacks put a new action in front of the list and
  the worker takes its action from the end of the list, so a batch of actions enqueued
  on an empty buffer before the drain loop runs is processed in the order of enqueueing,
  first in, first out: draining is the same as processing the actions one after the
  other in that order, and the first action the worker pops is the first one enqueued.
  The batch may have any length, two or more included.
\<close>

theorem drain_order_is_fifo:
  "drain l (foldl (\<lambda>x a. enqueue a x) (x\<lparr>x_buffer := []\<rparr>) acts) =
     foldl (\<lambda>x a. process l a x) (x\<lparr>x_buffer := []\<rparr>) acts
   \<and> last (x_buffer (foldl (\<lambda>x a. enqueue a x) (x\<lparr>x_buffer := []\<rparr>) (a0 # later))) = a0"
proof
  have "x_buffer (foldl (\<lambda>x a. enqueue a x) (x\<lparr>x_buffer := []\<rparr>) acts) = rev acts"
    by (simp add: enqueue_all)
  from drain_buffer [OF this, of l]
  show "drain l (foldl (\<lambda>x a. enqueue a x) (x\<lparr>x_buffer := []\<rparr>) acts) =
     foldl (\<lambda>x a. process l a x) (x\<lparr>x_buffer := []\<rparr>) acts"
    by (simp add: enqueue_all)
next
  show "last (x_buffer (foldl (\<lambda>x a. enqueue a x) (x\<lparr>x_buffer := []\<rparr>) (a0 # later))) = a0"
    by (simp add: enqueue_all)
qed

theorem drain_order_is_fifo_witness:
  "drain 4 (send_backspaces 1 (send_string ''a'' TinyMod4Extension_init)) =
     process 4 (Backspace 1) (process 4 (Text ''a'') TinyMod4Extension_init)
   \<and> last (x_buffer (send_backspaces 1 (send_string ''a'' TinyMod4Extension_init))) = Text ''a''"
  using drain_order_is_fifo [of 4 TinyMod4Extension_init "[Text ''a'', Backspace 1]" "Text ''a''" "[Backspace 1]"]
  by (simp add: TinyMod4Extension_init_def del: process.simps)

text \<open>
  The claim as stated, that the most recently enqueued action is popped first, fails:
  with \<open>a\<close> enqueued before \<open>b\<close>, it is \<open>a\<close> that is popped first and the report
  of \<open>a\<close> that is written first.
\<close>

theorem drain_most_recent_first_counterexample:
  "last (x_buffer (send_string ''b'' (send_string ''a'' TinyMod4Extension_init))) = Text ''a''
   \<and> x_device (drain 4 (send_string ''b'' (send_string ''a'' TinyMod4Extension_init))) =
       [[0, 0, 4, 0, 0, 0, 0, 0], [0, 0, 0, 0, 0, 0, 0, 0],
        [0, 0, 5, 0, 0, 0, 0, 0], [0, 0, 0, 0, 0, 0, 0, 0]]"
proof -
  let ?x = "send_string ''b'' (send_string ''a'' TinyMod4Extension_init)"
  have b: "x_buffer ?x = [Text ''b'', Text ''a'']"
    by (simp add: send_string_def TinyMod4Extension_init_def)
  from drain_buffer [OF b, of 4]
  have "x_device (drain 4 ?x) = write_string 4 ''b'' (write_string 4 ''a'' [])"
    by (simp add: send_string_def TinyMod4Extension_init_def)
  then have "x_device (drain 4 ?x) =
       [[0, 0, 4, 0, 0, 0, 0, 0], [0, 0, 0, 0, 0, 0, 0, 0],
        [0, 0, 5, 0, 0, 0, 0, 0], [0, 0, 0, 0, 0, 0, 0, 0]]"
    by (simp add: write_string_long4 hid_lut_a hid_lut_b NO_MOD_def del: write_string.simps)
  with b show ?thesis by simp
qed


text \<open>
  Claim C3, as the code has it. With a 4-byte native \<open>unsigned long\<close>, as on the
  Raspberry Pi Zero, a \<open>Text s\<close> action writes for each character of \<open>s\<close>, in order,
  one report of 8 bytes, holding the modifier and the key code of the table, or no
  modifier and the code 56 for a character that is not in the table, and then one
  trailer of 8 zero bytes. \<open>a\<close> maps to \<open>(NO_MOD, 4)\<close>. Draining \<open>Text "ab"\<close> makes
  exactly 4 writes of 8 bytes, two units of 16 bytes, and a character outside the table
  stops nothing: the characters after it are written as usual.
\<close>

theorem text_report_and_trailer:
  "x_device (process 4 (Text s) x) =
     x_device x @ concat (map (\<lambda>c. case hid_lut c of
         Some (m, k) \<Rightarrow> [[m, 0, k, 0, 0, 0, 0, 0], [0, 0, 0, 0, 0, 0, 0, 0]]
       | None \<Rightarrow> [[NO_MOD, 0, 56, 0, 0, 0, 0, 0], [0, 0, 0, 0, 0, 0, 0, 0]]) s)
   \<and> hid_lut CHR ''a'' = Some (NO_MOD, 4) \<and> NO_MOD = 0
   \<and> x_device (drain 4 (send_string ''ab'' TinyMod4Extension_init)) =
       [[0, 0, 4, 0, 0, 0, 0, 0], [0, 0, 0, 0, 0, 0, 0, 0],
        [0, 0, 5, 0, 0, 0, 0, 0], [0, 0, 0, 0, 0, 0, 0, 0]]"
proof (intro conjI)
  show "x_device (process 4 (Text s) x) =
     x_device x @ concat (map (\<lambda>c. case hid_lut c of
         Some (m, k) \<Rightarrow> [[m, 0, k, 0, 0, 0, 0, 0], [0, 0, 0, 0, 0, 0, 0, 0]]
       | None \<Rightarrow> [[NO_MOD, 0, 56, 0, 0, 0, 0, 0], [0, 0, 0, 0, 0, 0, 0, 0]]) s)"
    by (simp add: write_string_long4 del: write_string.simps)
  show "hid_lut CHR ''a'' = Some (NO_MOD, 4)" by (rule hid_lut_a)
  show "NO_MOD = 0" by (simp add: NO_MOD_def)
  show "x_device (drain 4 (send_string ''ab'' TinyMod4Extension_init)) =
       [[0, 0, 4, 0, 0, 0, 0, 0], [0, 0, 0, 0, 0, 0, 0, 0],
        [0, 0, 5, 0, 0, 0, 0, 0], [0, 0, 0, 0, 0, 0, 0, 0]]"
    by (simp add: drain_one_text write_string_long4 hid_lut_a hid_lut_b NO_MOD_def
          del: write_string.simps)
qed

theorem text_report_and_trailer_witness:
  "x_device (process 4 (Text [CHR ''a'', CHR 0x01, CHR ''b'']) TinyMod4Extension_init) =
     [[0, 0, 4, 0, 0, 0, 0, 0], [0, 0, 0, 0, 0, 0, 0, 0],
      [0, 0, 56, 0, 0, 0, 0, 0], [0, 0, 0, 0, 0, 0, 0, 0],
      [0, 0, 5, 0, 0, 0, 0, 0], [0, 0, 0, 0, 0, 0, 0, 0]]"
  using text_report_and_trailer [of "[CHR ''a'', CHR 0x01, CHR ''b'']" TinyMod4Extension_init]
  by (simp add: hid_lut_a hid_lut_b hid_lut_soh NO_MOD_def TinyMod4Extension_init_def
        del: process.simps)


text \<open>
  The claim as stated, that draining \<open>Text "ab"\<close> produces 4 units of 16 bytes, fails:
  the four writes have 8 bytes each where the native long has 4 bytes, and 16, 8, 16
  and 8 bytes where it has 8.
\<close>

theorem four_sixteen_byte_units_counterexample:
  "map length (x_device (drain 4 (send_string ''ab'' TinyMod4Extension_init))) = [8, 8, 8, 8]
   \<and> map length (x_device (drain 8 (send_string ''ab'' TinyMod4Extension_init))) = [16, 8, 16, 8]"
  by (simp add: drain_one_text hid_lut_a hid_lut_b pack_Q_zero pack_BBBBL_long4 pack_BBBBL_long8)

section \<open>Connecting to the board\<close>

text \<open>
  Claim C2, as the code has it. \<open>_connect\<close> succeeds, reporting ready and returning
  True, exactly when no hardware call of the \<open>try\<close> block raises and the mode-select
  pin reads low (0); whenever the pin reads anything else, or a call raises, the driver
  refuses to start: it returns False and reports the error state.
\<close>

theorem connect_needs_low_mode_pin:
  "fst (connect h m) = (\<not> hw_setup_raises h \<and> io_input h (m_modeSelectPin m) = 0)
   \<and> m_state (snd (connect h m)) = (if fst (connect h m) then St_ready else St_error)"
  by (simp add: connect_def Let_def warning_def)

theorem connect_needs_low_mode_pin_witness:
  "fst (connect \<lparr>hw_setup_raises = False, io_input = (\<lambda>pin. 0), read_byte_data = (\<lambda>addr reg. 0xff)\<rparr>
         (TinyMod4Machine_init (\<lambda>keys. keys)))
   \<and> m_state (snd (connect \<lparr>hw_setup_raises = False, io_input = (\<lambda>pin. 0),
                              read_byte_data = (\<lambda>addr reg. 0xff)\<rparr>
                      (TinyMod4Machine_init (\<lambda>keys. keys)))) = St_ready"
  using connect_needs_low_mode_pin
    [of "\<lparr>hw_setup_raises = False, io_input = (\<lambda>pin. 0), read_byte_data = (\<lambda>addr reg. 0xff)\<rparr>"
        "TinyMod4Machine_init (\<lambda>keys. keys)"]
  by (simp add: TinyMod4Machine_init_def)

text \<open>
  The claim as stated, that the driver starts only when the pin reads high, fails: with
  the pin at 1 the driver warns that NKRO is not selected and reports the error state,
  and with the pin at 0 it starts.
\<close>

theorem connect_high_mode_pin_counterexample:
  "connect \<lparr>hw_setup_raises = False, io_input = (\<lambda>pin. 1), read_byte_data = (\<lambda>addr reg. 0xff)\<rparr>
      (TinyMod4Machine_init (\<lambda>keys. keys)) =
     (False, (TinyMod4Machine_init (\<lambda>keys. keys))
        \<lparr>m_state := St_error,
         m_warnings := [''NKRO not selected on board. TinyMod4 plugin Disabled.'']\<rparr>)
   \<and> connect \<lparr>hw_setup_raises = False, io_input = (\<lambda>pin. 0), read_byte_data = (\<lambda>addr reg. 0xff)\<rparr>
      (TinyMod4Machine_init (\<lambda>keys. keys)) =
     (True, (TinyMod4Machine_init (\<lambda>keys. keys))\<lparr>m_state := St_ready\<rparr>)"
  by (simp add: connect_def Let_def warning_def TinyMod4Machine_init_def)

text \<open>
  Claim C5 asks that \<open>_reconnect\<close> keep retrying while the driver is running. The
  method does not: with the finished flag clear and the hardware set-up raising at the
  first and at the second attempt, it sleeps once, makes the second attempt and returns
  False, the driver still running and not connected.
\<close>

theorem reconnect_gives_up_after_one_retry:
  "reconnect False
      \<lparr>hw_setup_raises = True, io_input = (\<lambda>pin. 0), read_byte_data = (\<lambda>addr reg. 0xff)\<rparr>
      \<lparr>hw_setup_raises = True, io_input = (\<lambda>pin. 0), read_byte_data = (\<lambda>addr reg. 0xff)\<rparr>
      (TinyMod4Machine_init (\<lambda>keys. keys)) =
     (Some False, (TinyMod4Machine_init (\<lambda>keys. keys))
        \<lparr>m_state := St_error,
         m_warnings := [''Error setting up TinyMod4'', ''Error setting up TinyMod4''],
         m_slept := [500]\<rparr>)"
  by (simp add: reconnect_def connect_def Let_def warning_def sleep_def TinyMod4Machine_init_def)

section \<open>Decoding a chord\<close>

lemma send_keys_filter:
  "foldl append_if acc rows = acc @ map snd (filter (\<lambda>r. fst r \<noteq> 0) rows)"
  by (induction rows arbitrary: acc) (simp_all add: append_if_def)

lemma not_among_kept:
  "k \<notin> snd ` set rows \<Longrightarrow> k \<notin> set (map snd (filter P rows))"
  by auto

lemma send_pops:
  "pop (m_stack m) = Returns (b, s1) \<Longrightarrow> pop s1 = Returns (a, s2) \<Longrightarrow>
   send m = Returns (if send_keys a b \<noteq> [] then on_stroke (send_keys a b) (m\<lparr>m_stack := s2\<rparr>)
                     else m\<lparr>m_stack := s2\<rparr>)"
  by (simp add: send_def Let_def)

lemma send_keys_S1: "send_keys 0x10 0 = [''S1-'']"
  by (simp add: send_keys_def append_if_def)

lemma send_keys_none: "send_keys 0 0 = []"
  by (simp add: send_keys_def append_if_def)

lemma send_keys_stars:
  assumes "a AND 0x100 \<noteq> 0" and "b AND 0x200 \<noteq> 0"
  shows "\<exists>pre post. send_keys a b = pre @ [''*1'', ''*2''] @ post \<and>
           ''*1'' \<notin> set (pre @ post) \<and> ''*2'' \<notin> set (pre @ post)"
proof -
  define r1 where "r1 =
    [(a AND 0x10, ''S1-''), (a AND 0x08, ''S2-''), (a AND 0x20, ''T-''), (a AND 0x04, ''K-''),
     (a AND 0x40, ''P-''), (a AND 0x02, ''W-''), (a AND 0x80, ''H-''), (a AND 0x01, ''R-''),
     (b AND 0x08, ''A-''), (b AND 0x10, ''O-'')]"
  define r2 where "r2 =
    [(b AND 0x20, ''#1''), (b AND 0x40, ''-E''), (b AND 0x80, ''-U''), (b AND 0x8000, ''-F''),
     (b AND 0x01, ''-R''), (b AND 0x4000, ''-P''), (b AND 0x02, ''-B''), (b AND 0x2000, ''-L''),
     (b AND 0x04, ''-G''), (b AND 0x1000, ''-T''), (b AND 0x800, ''-S''), (b AND 0x100, ''-D''),
     (b AND 0x400, ''-Z'')]"
  let ?P = "\<lambda>r::int \<times> string. fst r \<noteq> 0"
  let ?pre = "map snd (filter ?P r1)" and ?post = "map snd (filter ?P r2)"
  have "send_keys a b =
      foldl append_if [] (r1 @ [(a AND 0x100, ''*1''), (b AND 0x200, ''*2'')] @ r2)"
    by (simp add: send_keys_def r1_def r2_def)
  then have split: "send_keys a b = ?pre @ [''*1'', ''*2''] @ ?post"
    using assms by (simp add: send_keys_filter del: foldl_append foldl_Cons)
  have "''*1'' \<notin> snd ` set r1" "''*1'' \<notin> snd ` set r2"
       "''*2'' \<notin> snd ` set r1" "''*2'' \<notin> snd ` set r2"
    by (simp_all add: r1_def r2_def)
  then have "''*1'' \<notin> set ?pre" "''*1'' \<notin> set ?post" "''*2'' \<notin> set ?pre" "''*2'' \<notin> set ?post"
    by (simp_all only: not_among_kept not_False_eq_True)
  then have "''*1'' \<notin> set (?pre @ ?post) \<and> ''*2'' \<notin> set (?pre @ ?post)"
    by (simp only: set_append Un_iff) blast
  with split show ?thesis by blast
qed

text \<open>
  Claim C7. The masks A = 0x10, B = 0 decode to the key list \<open>S1-\<close> alone, and when
  \<open>_send\<close> pops B = 0 and then A = 0x10 it hands exactly that list to \<open>_on_stroke\<close>.
  Whenever bit 0x100 of A and bit 0x200 of B are both set, the key list holds \<open>*1\<close>
  directly followed by \<open>*2\<close>, each of them once.
\<close>

theorem decode_follows_table:
  "send_keys 0x10 0 = [''S1-'']
   \<and> (pop (m_stack m) = Returns (0, s1) \<and> pop s1 = Returns (0x10, s2) \<longrightarrow>
        send m = Returns (on_stroke [''S1-''] (m\<lparr>m_stack := s2\<rparr>)))
   \<and> (a AND 0x100 \<noteq> 0 \<and> b AND 0x200 \<noteq> 0 \<longrightarrow>
        (\<exists>pre post. send_keys a b = pre @ [''*1'', ''*2''] @ post \<and>
           ''*1'' \<notin> set (pre @ post) \<and> ''*2'' \<notin> set (pre @ post)))"
proof (intro conjI impI)
  show "send_keys 0x10 0 = [''S1-'']" by (rule send_keys_S1)
next
  assume "pop (m_stack m) = Returns (0, s1) \<and> pop s1 = Returns (0x10, s2)"
  then show "send m = Returns (on_stroke [''S1-''] (m\<lparr>m_stack := s2\<rparr>))"
    using send_pops [of m 0 s1 "0x10" s2] by (simp add: send_keys_S1)
next
  assume "a AND 0x100 \<noteq> 0 \<and> b AND 0x200 \<noteq> 0"
  then show "\<exists>pre post. send_keys a b = pre @ [''*1'', ''*2''] @ post \<and>
           ''*1'' \<notin> set (pre @ post) \<and> ''*2'' \<notin> set (pre @ post)"
    using send_keys_stars [of a b] by simp
qed

theorem decode_follows_table_witness:
  "send ((TinyMod4Machine_init (\<lambda>keys. keys))
           \<lparr>m_stack := \<lparr>fs_stackSize = 8, fs_stackMask = 7,
                         fs_stack = [0, 0x10, 0, 0, 0, 0, 0, 0], fs_p = 2\<rparr>\<rparr>) =
     Returns ((TinyMod4Machine_init (\<lambda>keys. keys))
           \<lparr>m_stack := \<lparr>fs_stackSize = 8, fs_stackMask = 7,
                         fs_stack = [0, 0x10, 0, 0, 0, 0, 0, 0], fs_p = 0\<rparr>,
             m_notified := [[''S1-'']]\<rparr>)
   \<and> (\<exists>pre post. send_keys 0x100 0x200 = pre @ [''*1'', ''*2''] @ post \<and>
           ''*1'' \<notin> set (pre @ post) \<and> ''*2'' \<notin> set (pre @ post))"
  using decode_follows_table
    [of "(TinyMod4Machine_init (\<lambda>keys. keys))
           \<lparr>m_stack := \<lparr>fs_stackSize = 8, fs_stackMask = 7,
                         fs_stack = [0, 0x10, 0, 0, 0, 0, 0, 0], fs_p = 2\<rparr>\<rparr>"
        "\<lparr>fs_stackSize = 8, fs_stackMask = 7, fs_stack = [0, 0x10, 0, 0, 0, 0, 0, 0], fs_p = 1\<rparr>"
        "\<lparr>fs_stackSize = 8, fs_stackMask = 7, fs_stack = [0, 0x10, 0, 0, 0, 0, 0, 0], fs_p = 0\<rparr>"
        "0x100" "0x200"]
  by (simp add: pop_def getitem_def on_stroke_def notify_def TinyMod4Machine_init_def)

text \<open>
  Claim C8. Two zero masks decode to the empty key list, and \<open>_send\<close>, popping two
  zeros, returns without raising and changes nothing but the stack: no notification.
  When the keymap maps a key list to no action, \<open>_on_stroke\<close> leaves the machine as it
  is: no notification either.
\<close>

theorem empty_chord_is_silent:
  "send_keys 0 0 = []
   \<and> (pop (m_stack m) = Returns (0, s1) \<and> pop s1 = Returns (0, s2) \<longrightarrow>
        send m = Returns (m\<lparr>m_stack := s2\<rparr>))
   \<and> (m_keymap m keys = [] \<longrightarrow> on_stroke keys m = m)"
proof (intro conjI impI)
  show "send_keys 0 0 = []" by (rule send_keys_none)
next
  assume "pop (m_stack m) = Returns (0, s1) \<and> pop s1 = Returns (0, s2)"
  then show "send m = Returns (m\<lparr>m_stack := s2\<rparr>)"
    using send_pops [of m 0 s1 0 s2] by (simp add: send_keys_none)
next
  assume "m_keymap m keys = []"
  then show "on_stroke keys m = m" by (simp add: on_stroke_def)
qed

theorem empty_chord_is_silent_witness:
  "send (TinyMod4Machine_init (\<lambda>keys. keys)) =
     Returns ((TinyMod4Machine_init (\<lambda>keys. keys))
        \<lparr>m_stack := \<lparr>fs_stackSize = 8, fs_stackMask = 7,
                      fs_stack = [0, 0, 0, 0, 0, 0, 0, 0], fs_p = 6\<rparr>\<rparr>)
   \<and> on_stroke [''S1-''] (TinyMod4Machine_init (\<lambda>keys. [])) = TinyMod4Machine_init (\<lambda>keys. [])"
  using empty_chord_is_silent
    [of "TinyMod4Machine_init (\<lambda>keys. keys)"
        "\<lparr>fs_stackSize = 8, fs_stackMask = 7, fs_stack = [0, 0, 0, 0, 0, 0, 0, 0], fs_p = 7\<rparr>"
        "\<lparr>fs_stackSize = 8, fs_stackMask = 7, fs_stack = [0, 0, 0, 0, 0, 0, 0, 0], fs_p = 6\<rparr>"]
    empty_chord_is_silent [of "TinyMod4Machine_init (\<lambda>keys. [])" _ _ "[''S1-'']"]
  by (simp add: pop_def getitem_def TinyMod4Machine_init_def ForthStack_init_def numeral_eq_Suc)

section \<open>Reading and merging the two key sources\<close>

text \<open>
  The machine builds its stack with \<open>ForthStack(8, 7)\<close>; \<open>in_shape 8 7\<close> holds of it
  from then on, since every method keeps it.
\<close>

lemma pointer_cases:
  assumes "in_shape 8 7 s"
  shows "fs_p s = 0 \<or> fs_p s = 1 \<or> fs_p s = 2 \<or> fs_p s = 3 \<or>
         fs_p s = 4 \<or> fs_p s = 5 \<or> fs_p s = 6 \<or> fs_p s = 7"
  using assms unfolding in_shape_def by presburger

lemma merge_sequence:
  assumes "in_shape 8 7 s"
  shows "\<exists>s6 s7 s8.
     and_then (push a s) (\<lambda>s1. and_then (push b s1) (\<lambda>s2. and_then (over s2) (\<lambda>s3.
       and_then (over s3) (\<lambda>s4. and_then (or_op s4) (\<lambda>s5. pop s5))))) = Returns (b OR a, s6)
     \<and> pop s6 = Returns (b, s7) \<and> pop s7 = Returns (a, s8)
     \<and> in_shape 8 7 s6 \<and> in_shape 8 7 s8 \<and> fs_p s8 = fs_p s"
proof -
  from assms have shape: "length (fs_stack s) = 8" "fs_stackMask s = 7" "fs_stackSize s = 8"
    by (simp_all add: in_shape_def)
  from pointer_cases [OF assms] shape show ?thesis
    by (elim disjE)
       (simp_all add: push_def pop_def over_def or_op_def binary_op_def getitem_def
          setitem_def Let_def in_shape_def)
qed

lemma and_then_assoc:
  "and_then (and_then x f) g = and_then x (\<lambda>v. and_then (f v) g)"
  by (cases x) simp_all

lemma read_all_merged_chain:
  "read_all_merged h m =
     and_then
       (and_then (push (raw_keys h) (m_stack m)) (\<lambda>s1. and_then (push (ab_keys h) s1)
          (\<lambda>s2. and_then (over s2) (\<lambda>s3. and_then (over s3) (\<lambda>s4. and_then (or_op s4)
             (\<lambda>s5. pop s5))))))
       (\<lambda>(v, s6). Returns (v, m\<lparr>m_pressed := True, m_stack := s6\<rparr>))"
  by (simp add: read_all_merged_def read_raw_keys_def read_ab_def and_then_assoc)

lemma read_all_effect:
  assumes "in_shape 8 7 (m_stack m)"
  shows "\<exists>s6 s7 s8.
     read_all_merged h m =
       Returns (raw_keys h OR ab_keys h, m\<lparr>m_pressed := True, m_stack := s6\<rparr>)
     \<and> read_all h m =
       Returns (m\<lparr>m_pressed := (raw_keys h OR ab_keys h \<noteq> 0), m_stack := s6\<rparr>)
     \<and> pop s6 = Returns (ab_keys h, s7) \<and> pop s7 = Returns (raw_keys h, s8)
     \<and> in_shape 8 7 s6 \<and> in_shape 8 7 s8 \<and> fs_p s8 = fs_p (m_stack m)"
proof -
  from merge_sequence [OF assms, of "raw_keys h" "ab_keys h"] obtain s6 s7 s8 where
    chain: "and_then (push (raw_keys h) (m_stack m)) (\<lambda>s1. and_then (push (ab_keys h) s1)
          (\<lambda>s2. and_then (over s2) (\<lambda>s3. and_then (over s3) (\<lambda>s4. and_then (or_op s4)
             (\<lambda>s5. pop s5))))) = Returns (ab_keys h OR raw_keys h, s6)"
    and rest: "pop s6 = Returns (ab_keys h, s7)" "pop s7 = Returns (raw_keys h, s8)"
      "in_shape 8 7 s6" "in_shape 8 7 s8" "fs_p s8 = fs_p (m_stack m)"
    by blast
  have merged: "read_all_merged h m =
       Returns (raw_keys h OR ab_keys h, m\<lparr>m_pressed := True, m_stack := s6\<rparr>)"
    unfolding read_all_merged_chain chain by (simp add: or.commute)
  have "read_all h m =
       Returns (m\<lparr>m_pressed := (raw_keys h OR ab_keys h \<noteq> 0), m_stack := s6\<rparr>)"
    unfolding read_all_def merged by simp
  with merged rest show ?thesis by blast
qed

lemma raw_keys_idle: "raw_keys (board []) = 0"
  by (simp add: raw_keys_def raw_bits_def board_def)

lemma raw_keys_26: "raw_keys (board [26]) = 0x10"
  by (simp add: raw_keys_def raw_bits_def board_def)

lemma raw_keys_26_19: "raw_keys (board [26, 19]) = 0x30"
  by (simp add: raw_keys_def raw_bits_def board_def)

lemma ab_keys_board: "ab_keys (board pins) = 0"
  by (simp add: ab_keys_def ab_word_def board_def)

text \<open>
  Claim C4. For every state of the board, the merged mask that \<open>_read_all\<close> computes
  with push, push, over, over, \<open>or_\<close>, pop is the bitwise OR of the two inverted sub-masks,
  \<open>(rawBits ^ 0x1ff) | (expanderWord ^ 0xffff)\<close>, and the sequence returns.
\<close>

theorem merged_mask_is_or:
  "in_shape 8 7 (m_stack m) \<Longrightarrow>
   \<exists>m'. read_all_merged h m =
          Returns ((raw_bits h XOR 0x1ff) OR (ab_word h XOR 0xffff), m')"
  using read_all_effect [of m h] by (auto simp: raw_keys_def ab_keys_def)

theorem merged_mask_is_or_witness:
  "\<exists>m'. read_all_merged (board [26]) (TinyMod4Machine_init (\<lambda>keys. keys)) = Returns (0x10, m')"
proof -
  have "in_shape 8 7 (m_stack (TinyMod4Machine_init (\<lambda>keys. keys)))"
    by (simp add: in_shape_def TinyMod4Machine_init_def ForthStack_init_def)
  from merged_mask_is_or [OF this, of "board [26]"] show ?thesis
    using raw_keys_26 ab_keys_board [of "[26]"] by (simp add: raw_keys_def ab_keys_def)
qed

lemma accumulate_released:
  "\<not> m_pressed m \<Longrightarrow> accumulate hs a b m = Returns ((a, b), m, hs)"
  by (cases hs) simp_all

lemma accumulate_step:
  assumes "in_shape 8 7 (m_stack m)" and "m_pressed m"
  shows "\<exists>m2. accumulate (h # hs) a b m = accumulate hs (a OR raw_keys h) (b OR ab_keys h) m2
           \<and> m_pressed m2 = (raw_keys h OR ab_keys h \<noteq> 0)
           \<and> in_shape 8 7 (m_stack m2) \<and> fs_p (m_stack m2) = fs_p (m_stack m)"
proof -
  from read_all_effect [OF assms(1), of h] obtain s6 s7 s8 where
    r: "read_all h m =
         Returns (m\<lparr>m_pressed := (raw_keys h OR ab_keys h \<noteq> 0), m_stack := s6\<rparr>)"
    and p1: "pop s6 = Returns (ab_keys h, s7)" and p2: "pop s7 = Returns (raw_keys h, s8)"
    and sh: "in_shape 8 7 s8" "fs_p s8 = fs_p (m_stack m)"
    by blast
  let ?m2 = "m\<lparr>m_pressed := (raw_keys h OR ab_keys h \<noteq> 0), m_stack := s8\<rparr>"
  have "accumulate (h # hs) a b m = accumulate hs (a OR raw_keys h) (b OR ab_keys h) ?m2"
    using assms(2) by (simp add: r p1 p2)
  with sh show ?thesis by (intro exI [of _ ?m2]) simp
qed

text \<open>
  Claim C10. After \<open>_read_all\<close> the flag \<open>_pressed\<close> is True exactly when the OR of the
  two inverted sub-masks just read is not zero, and the two top entries of the stack
  are, from the top, the inverted expander mask and the inverted raw-pin mask: the next
  two pops return them in that order. They are the two values that a round of the
  second loop of \<open>_scan\<close> pops: the round goes on from the machine that \<open>_read_all\<close>
  left, its stack two entries shorter, with the expander mask ORed into \<open>b\<close> and the
  raw-pin mask ORed into \<open>a\<close>. So, when the sample after \<open>h\<close> has no key down, the loop
  started on \<open>h\<close> ends with \<open>a | raw\<close> and \<open>b | expander\<close>, having read that next sample
  only if \<open>h\<close> had a key down.
\<close>

theorem read_all_leaves_masks_on_top:
  assumes shape: "in_shape 8 7 (m_stack m)"
  shows "\<exists>m' s7 s8. read_all h m = Returns m'
      \<and> m_pressed m' = (raw_keys h OR ab_keys h \<noteq> 0)
      \<and> pop (m_stack m') = Returns (ab_keys h, s7) \<and> pop s7 = Returns (raw_keys h, s8)
      \<and> (m_pressed m \<longrightarrow>
            accumulate (h # hs) a b m =
              accumulate hs (a OR raw_keys h) (b OR ab_keys h) (m'\<lparr>m_stack := s8\<rparr>))
      \<and> (m_pressed m \<and> raw_keys r = 0 \<and> ab_keys r = 0 \<longrightarrow>
            (\<exists>m3. accumulate (h # r # hs) a b m =
               Returns ((a OR raw_keys h, b OR ab_keys h), m3,
                        if raw_keys h OR ab_keys h \<noteq> 0 then hs else r # hs)))"
proof -
  from read_all_effect [OF shape, of h] obtain s6 s7 s8 where
    r: "read_all h m =
         Returns (m\<lparr>m_pressed := (raw_keys h OR ab_keys h \<noteq> 0), m_stack := s6\<rparr>)"
    and p1: "pop s6 = Returns (ab_keys h, s7)" and p2: "pop s7 = Returns (raw_keys h, s8)"
    and s8: "in_shape 8 7 s8"
    by blast
  define m' where "m' = m\<lparr>m_pressed := (raw_keys h OR ab_keys h \<noteq> 0), m_stack := s6\<rparr>"
  define m2 where "m2 = m'\<lparr>m_stack := s8\<rparr>"
  have r': "read_all h m = Returns m'" and pr: "m_pressed m' = (raw_keys h OR ab_keys h \<noteq> 0)"
    and st: "m_stack m' = s6"
    by (simp_all add: r m'_def)
  have step: "accumulate (h # tail) a b m =
      accumulate tail (a OR raw_keys h) (b OR ab_keys h) m2" if "m_pressed m" for tail
    using that by (simp add: r' st p1 p2 m2_def)
  have two: "\<exists>m3. accumulate (h # r # hs) a b m =
               Returns ((a OR raw_keys h, b OR ab_keys h), m3,
                        if raw_keys h OR ab_keys h \<noteq> 0 then hs else r # hs)"
    if pressed: "m_pressed m" and rel: "raw_keys r = 0" "ab_keys r = 0"
  proof (cases "raw_keys h OR ab_keys h \<noteq> 0")
    case True
    have "in_shape 8 7 (m_stack m2)" "m_pressed m2"
      using s8 True by (simp_all add: m2_def pr)
    from accumulate_step [OF this, of r hs "a OR raw_keys h" "b OR ab_keys h"] rel
    obtain m3 where "accumulate (r # hs) (a OR raw_keys h) (b OR ab_keys h) m2 =
        accumulate hs (a OR raw_keys h) (b OR ab_keys h) m3" "\<not> m_pressed m3"
      by auto
    with step [OF pressed, of "r # hs"] True show ?thesis
      by (simp add: accumulate_released)
  next
    case False
    then have "\<not> m_pressed m2" by (simp add: m2_def pr)
    from accumulate_released [OF this] step [OF pressed, of "r # hs"] False
    show ?thesis by simp
  qed
  from step [of hs] two
  have "(m_pressed m \<longrightarrow>
            accumulate (h # hs) a b m =
              accumulate hs (a OR raw_keys h) (b OR ab_keys h) (m'\<lparr>m_stack := s8\<rparr>))
      \<and> (m_pressed m \<and> raw_keys r = 0 \<and> ab_keys r = 0 \<longrightarrow>
            (\<exists>m3. accumulate (h # r # hs) a b m =
               Returns ((a OR raw_keys h, b OR ab_keys h), m3,
                        if raw_keys h OR ab_keys h \<noteq> 0 then hs else r # hs)))"
    unfolding m2_def by blast
  with r' pr p1 p2 st show ?thesis by blast
qed

theorem read_all_leaves_masks_on_top_witness:
  "\<exists>m' s7 s8.
     read_all (board [26]) ((TinyMod4Machine_init (\<lambda>keys. keys))\<lparr>m_pressed := True\<rparr>) = Returns m'
     \<and> m_pressed m' \<and> pop (m_stack m') = Returns (0, s7) \<and> pop s7 = Returns (0x10, s8)
     \<and> accumulate [board [26], board [26, 19]] 0 0
          ((TinyMod4Machine_init (\<lambda>keys. keys))\<lparr>m_pressed := True\<rparr>) =
        accumulate [board [26, 19]] 0x10 0 (m'\<lparr>m_stack := s8\<rparr>)
     \<and> (\<exists>m3. accumulate [board [26], board [], board [26, 19]] 0 0
                ((TinyMod4Machine_init (\<lambda>keys. keys))\<lparr>m_pressed := True\<rparr>) =
              Returns ((0x10, 0), m3, [board [26, 19]]))"
proof -
  let ?m = "(TinyMod4Machine_init (\<lambda>keys. keys))\<lparr>m_pressed := True\<rparr>"
  have "in_shape 8 7 (m_stack ?m)"
    by (simp add: in_shape_def TinyMod4Machine_init_def ForthStack_init_def)
  from read_all_leaves_masks_on_top
         [OF this, where h = "board [26]" and hs = "[board [26, 19]]" and a = 0 and b = 0
            and r = "board []"]
  show ?thesis
    by (simp add: raw_keys_idle raw_keys_26 ab_keys_board del: accumulate.simps)
qed

section \<open>Scanning a chord\<close>

declare wait_for_press.simps [simp del]

lemma or_accumulate_same:
  "\<forall>h\<in>set xs. f h = c \<Longrightarrow>
   fold (\<lambda>h a. a OR f h) xs (a::int) = (if xs = [] then a else a OR c)"
proof (induction xs arbitrary: a)
  case Nil
  show ?case by simp
next
  case (Cons h xs)
  then show ?case by (simp add: or.assoc)
qed

lemma accumulate_run:
  assumes "in_shape 8 7 (m_stack m)" and "m_pressed m"
    and "\<forall>h\<in>set xs. raw_keys h OR ab_keys h \<noteq> 0"
    and "raw_keys r = 0" and "ab_keys r = 0"
  shows "\<exists>m'. accumulate (xs @ r # rest) a b m =
            Returns ((fold (\<lambda>h a. a OR raw_keys h) xs a, fold (\<lambda>h b. b OR ab_keys h) xs b),
                     m', rest)
          \<and> in_shape 8 7 (m_stack m') \<and> \<not> m_pressed m'"
  using assms(1-3)
proof (induction xs arbitrary: m a b)
  case Nil
  from accumulate_step [OF Nil.prems(1,2), of r rest a b] assms(4,5)
  obtain m2 where "accumulate (r # rest) a b m = accumulate rest a b m2"
    "\<not> m_pressed m2" "in_shape 8 7 (m_stack m2)"
    by auto
  then show ?case by (simp add: accumulate_released)
next
  case (Cons h xs)
  from accumulate_step [OF Cons.prems(1,2), of h "xs @ r # rest" a b] Cons.prems(3)
  obtain m2 where step: "accumulate (h # xs @ r # rest) a b m =
      accumulate (xs @ r # rest) (a OR raw_keys h) (b OR ab_keys h) m2"
    and "m_pressed m2" "in_shape 8 7 (m_stack m2)"
    by auto
  with Cons.IH [of m2 "a OR raw_keys h" "b OR ab_keys h"] Cons.prems(3)
  show ?case by (simp add: step)
qed

lemma poll_until_pressed_shape:
  "in_shape 8 7 (m_stack m) \<Longrightarrow> poll_until_pressed hs m = Returns (m', hs') \<Longrightarrow>
   in_shape 8 7 (m_stack m') \<and> m_pressed m'"
proof (induction hs arbitrary: m)
  case Nil
  then show ?case by (simp split: if_splits)
next
  case (Cons h hs)
  show ?case
  proof (cases "m_pressed m")
    case True
    with Cons.prems show ?thesis by simp
  next
    case False
    from read_all_effect [OF Cons.prems(1), of h] obtain m1 where
      r: "read_all h m = Returns m1" and s: "in_shape 8 7 (m_stack m1)"
      by auto
    from Cons.prems(2) False r have "poll_until_pressed hs m1 = Returns (m', hs')" by simp
    from Cons.IH [OF s this] show ?thesis .
  qed
qed

lemma wait_for_press_shape:
  "in_shape 8 7 (m_stack m) \<Longrightarrow> wait_for_press hs m = Returns (m', hs') \<Longrightarrow>
   in_shape 8 7 (m_stack m') \<and> m_pressed m'"
proof (induction hs m rule: wait_for_press.induct)
  case (1 hs m)
  show ?case
  proof (cases "m_pressed m")
    case True
    with "1.prems" show ?thesis by (simp add: wait_for_press.simps [of hs m])
  next
    case False
    with "1.prems"(2) obtain m1 hs1 where
      p: "poll_until_pressed hs m = Returns (m1, hs1)"
      by (cases "poll_until_pressed hs m") (auto simp: wait_for_press.simps [of hs m])
    from poll_until_pressed_shape [OF "1.prems"(1) p]
    have s1: "in_shape 8 7 (m_stack m1)" by simp
    from "1.prems"(2) False p obtain h hs2 where hs1: "hs1 = h # hs2"
      by (cases hs1) (auto simp: wait_for_press.simps [of hs m])
    from s1 have "in_shape 8 7 (m_stack (sleep 30 m1))" by (simp add: sleep_def)
    from read_all_effect [OF this, of h] obtain m2 where
      r: "read_all h (sleep 30 m1) = Returns m2" and s2: "in_shape 8 7 (m_stack m2)"
      by auto
    from "1.prems"(2) False p hs1 r have w: "wait_for_press hs2 m2 = Returns (m', hs')"
      by (simp add: wait_for_press.simps [of hs m])
    from "1.IH" [OF False p refl hs1 r s2 w] show ?thesis .
  qed
qed

lemma push_push_pops:
  assumes "in_shape 8 7 s"
  shows "\<exists>s1 s2 s3 s4. push a s = Returns s1 \<and> push b s1 = Returns s2 \<and>
           pop s2 = Returns (b, s3) \<and> pop s3 = Returns (a, s4)"
proof -
  from assms have shape: "length (fs_stack s) = 8" "fs_stackMask s = 7"
    by (simp_all add: in_shape_def)
  from pointer_cases [OF assms] shape show ?thesis
    by (elim disjE) (simp_all add: push_def pop_def getitem_def setitem_def Let_def)
qed

lemma poll_detects:
  assumes "in_shape 8 7 (m_stack m)" and "\<not> m_pressed m"
    and "\<forall>z\<in>set zs. raw_keys z OR ab_keys z = 0"
    and "raw_keys d OR ab_keys d \<noteq> 0"
  shows "\<exists>m1. poll_until_pressed (zs @ d # tail) m = Returns (m1, tail) \<and>
           in_shape 8 7 (m_stack m1) \<and> m_pressed m1"
  using assms(1-3)
proof (induction zs arbitrary: m)
  case Nil
  from read_all_effect [OF Nil.prems(1), of d] assms(4) obtain m1 where
    "read_all d m = Returns m1" "in_shape 8 7 (m_stack m1)" "m_pressed m1"
    by auto
  with Nil.prems(2) show ?case by (cases tail) simp_all
next
  case (Cons z zs)
  from read_all_effect [OF Cons.prems(1), of z] Cons.prems(3) obtain m1 where
    r: "read_all z m = Returns m1" and "in_shape 8 7 (m_stack m1)" "\<not> m_pressed m1"
    by auto
  with Cons.IH [of m1] Cons.prems(2,3) show ?case by simp
qed

lemma wait_for_press_detects:
  assumes "in_shape 8 7 (m_stack m)" and "\<not> m_pressed m"
    and "\<forall>z\<in>set zs. raw_keys z OR ab_keys z = 0"
    and "raw_keys d OR ab_keys d \<noteq> 0" and "raw_keys c OR ab_keys c \<noteq> 0"
  shows "\<exists>m2. wait_for_press (zs @ d # c # tail) m = Returns (m2, tail)"
proof -
  from poll_detects [OF assms(1-4), of "c # tail"] obtain m1 where
    p: "poll_until_pressed (zs @ d # c # tail) m = Returns (m1, c # tail)"
    and s1: "in_shape 8 7 (m_stack m1)"
    by blast
  from s1 have "in_shape 8 7 (m_stack (sleep 30 m1))" by (simp add: sleep_def)
  from read_all_effect [OF this, of c] assms(5) obtain m2 where
    r: "read_all c (sleep 30 m1) = Returns m2" and "m_pressed m2"
    by auto
  then have "wait_for_press tail m2 = Returns (m2, tail)"
    by (simp add: wait_for_press.simps [of tail m2])
  with assms(2) p r show ?thesis
    by (simp add: wait_for_press.simps [of "zs @ d # c # tail" m])
qed

lemma scan_run:
  assumes shape: "in_shape 8 7 (m_stack m)" and idle: "\<not> m_pressed m"
    and quiet: "\<forall>z\<in>set zs. raw_keys z OR ab_keys z = 0"
    and detect: "raw_keys d OR ab_keys d \<noteq> 0" and confirm: "raw_keys c OR ab_keys c \<noteq> 0"
    and held: "\<forall>h\<in>set xs. raw_keys h OR ab_keys h \<noteq> 0"
    and released: "raw_keys r = 0" "ab_keys r = 0"
  shows "\<exists>m' s1 s2. scan (zs @ d # c # xs @ r # rest) m = Returns (m', rest) \<and>
           pop (m_stack m') = Returns (fold (\<lambda>h b. b OR ab_keys h) xs 0, s1) \<and>
           pop s1 = Returns (fold (\<lambda>h a. a OR raw_keys h) xs 0, s2)"
proof -
  from wait_for_press_detects [OF shape idle quiet detect confirm, of "xs @ r # rest"]
  obtain m1 where w: "wait_for_press (zs @ d # c # xs @ r # rest) m = Returns (m1, xs @ r # rest)"
    by blast
  from wait_for_press_shape [OF shape w]
  have s1: "in_shape 8 7 (m_stack m1)" and p1: "m_pressed m1" by simp_all
  from accumulate_run [OF s1 p1 held released, of rest 0 0] obtain m2 where
    acc: "accumulate (xs @ r # rest) 0 0 m1 =
            Returns ((fold (\<lambda>h a. a OR raw_keys h) xs 0,
                      fold (\<lambda>h b. b OR ab_keys h) xs 0), m2, rest)"
    and s2: "in_shape 8 7 (m_stack m2)"
    by blast
  from push_push_pops [OF s2, of "fold (\<lambda>h a. a OR raw_keys h) xs 0"
      "fold (\<lambda>h b. b OR ab_keys h) xs 0"]
  obtain t1 t2 t3 t4 where
    "push (fold (\<lambda>h a. a OR raw_keys h) xs 0) (m_stack m2) = Returns t1"
    "push (fold (\<lambda>h b. b OR ab_keys h) xs 0) t1 = Returns t2"
    "pop t2 = Returns (fold (\<lambda>h b. b OR ab_keys h) xs 0, t3)"
    "pop t3 = Returns (fold (\<lambda>h a. a OR raw_keys h) xs 0, t4)"
    by blast
  then show ?thesis
    by (simp add: scan_def w acc)
qed

text \<open>
  Claim C6, as the code has it. \<open>_scan\<close> is entered with nothing pressed. It reads
  samples with no key down, then the sample \<open>d\<close> that detects the press and, 30 ms
  later, the sample \<open>c\<close> that confirms it; neither is ORed into \<open>a\<close> and \<open>b\<close>, which are
  set to 0 after them. Let the samples that follow carry the bit-sets \<open>(Xa, Xb)\<close>, any
  number of times, then \<open>(Xa | Ya, Xb | Yb)\<close>, one or more times, and let the next
  sample have no key down. Then \<open>_scan\<close> returns, having read exactly these samples, and
  the two masks it leaves on the stack, the \<open>b\<close> and the \<open>a\<close> that \<open>_send\<close> pops, are
  \<open>Xb | Yb\<close> and \<open>Xa | Ya\<close>, however many samples of either kind were taken.
\<close>

theorem chord_is_union_of_samples:
  assumes shape: "in_shape 8 7 (m_stack m)" and idle: "\<not> m_pressed m"
    and quiet: "\<forall>z\<in>set zs. raw_keys z OR ab_keys z = 0"
    and detect: "raw_keys d OR ab_keys d \<noteq> 0" and confirm: "raw_keys c OR ab_keys c \<noteq> 0"
    and first: "\<forall>h\<in>set xs. raw_keys h = Xa \<and> ab_keys h = Xb"
    and later: "\<forall>h\<in>set ys. raw_keys h = Xa OR Ya \<and> ab_keys h = Xb OR Yb"
    and some: "ys \<noteq> []" and down: "Xa OR Xb \<noteq> 0"
    and released: "raw_keys r = 0" "ab_keys r = 0"
  shows "\<exists>m' s1 s2. scan (zs @ d # c # xs @ ys @ r # rest) m = Returns (m', rest) \<and>
           pop (m_stack m') = Returns (Xb OR Yb, s1) \<and> pop s1 = Returns (Xa OR Ya, s2)"
proof -
  have "(Xa OR Ya) OR (Xb OR Yb) \<noteq> 0"
    using down by (auto simp: or_eq_0_iff)
  with first later down have held: "\<forall>h\<in>set (xs @ ys). raw_keys h OR ab_keys h \<noteq> 0"
    by auto
  from first have fa: "\<forall>h\<in>set xs. raw_keys h = Xa" and fb: "\<forall>h\<in>set xs. ab_keys h = Xb"
    by simp_all
  from later have la: "\<forall>h\<in>set ys. raw_keys h = Xa OR Ya"
    and lb: "\<forall>h\<in>set ys. ab_keys h = Xb OR Yb"
    by simp_all
  have a: "fold (\<lambda>h a. a OR raw_keys h) (xs @ ys) 0 = Xa OR Ya"
    using some by (simp add: or_accumulate_same [OF fa] or_accumulate_same [OF la]
        or.assoc [symmetric])
  have b: "fold (\<lambda>h b. b OR ab_keys h) (xs @ ys) 0 = Xb OR Yb"
    using some by (simp add: or_accumulate_same [OF fb] or_accumulate_same [OF lb]
        or.assoc [symmetric])
  from scan_run [OF shape idle quiet detect confirm held released, of rest]
  show ?thesis unfolding a b by simp
qed

theorem chord_is_union_of_samples_witness:
  "\<exists>m' s1 s2.
     scan [board [], board [26], board [26], board [26], board [26, 19], board [26, 19],
           board [], board [26]] (TinyMod4Machine_init (\<lambda>keys. keys)) =
       Returns (m', [board [26]]) \<and>
     pop (m_stack m') = Returns (0, s1) \<and> pop s1 = Returns (0x30, s2)"
proof -
  let ?m = "TinyMod4Machine_init (\<lambda>keys. keys)"
  have shape: "in_shape 8 7 (m_stack ?m)" and idle: "\<not> m_pressed ?m"
    by (simp_all add: in_shape_def TinyMod4Machine_init_def ForthStack_init_def)
  from chord_is_union_of_samples
         [OF shape idle, where zs = "[board []]" and d = "board [26]" and c = "board [26]"
            and xs = "[board [26]]" and ys = "[board [26, 19], board [26, 19]]"
            and r = "board []" and rest = "[board [26]]"
            and Xa = "0x10" and Xb = 0 and Ya = "0x20" and Yb = 0]
  show ?thesis
    by (simp add: raw_keys_idle raw_keys_26 raw_keys_26_19 ab_keys_board)
qed

text \<open>
  The claim as stated, over all the samples of the press, fails. A key of bit \<open>0x10\<close> is
  down at the first sample, a key of bit \<open>0x20\<close> is down with it at the second, and both
  are up at the third: the first sample detects the press, the second confirms it, the
  loop reads the third and stops, and \<open>_scan\<close> leaves \<open>a = 0\<close> and \<open>b = 0\<close>, though the union
  of the sampled raw-pin masks is \<open>0x30\<close>.
\<close>

theorem chord_on_first_two_samples_counterexample:
  "and_then (scan [board [26], board [26, 19], board []] (TinyMod4Machine_init (\<lambda>keys. keys)))
     (\<lambda>(m', rest). and_then (pop (m_stack m')) (\<lambda>(b, s1). and_then (pop s1) (\<lambda>(a, s2).
        Returns (a, b, rest)))) = Returns (0, 0, [])
   \<and> raw_keys (board [26]) OR raw_keys (board [26, 19]) = 0x30
   \<and> ab_keys (board [26]) OR ab_keys (board [26, 19]) = 0"
proof -
  let ?m = "TinyMod4Machine_init (\<lambda>keys. keys)"
  have shape: "in_shape 8 7 (m_stack ?m)" and idle: "\<not> m_pressed ?m"
    by (simp_all add: in_shape_def TinyMod4Machine_init_def ForthStack_init_def)
  have "\<exists>m' s1 s2. scan ([] @ board [26] # board [26, 19] # [] @ board [] # []) ?m =
           Returns (m', []) \<and>
           pop (m_stack m') = Returns (fold (\<lambda>h b. b OR ab_keys h) [] 0, s1) \<and>
           pop s1 = Returns (fold (\<lambda>h a. a OR raw_keys h) [] 0, s2)"
    by (rule scan_run [OF shape idle])
       (simp_all add: raw_keys_idle raw_keys_26 raw_keys_26_19 ab_keys_board)
  then obtain m' s1 s2 where
    "scan [board [26], board [26, 19], board []] ?m = Returns (m', [])"
    "pop (m_stack m') = Returns (0, s1)" "pop s1 = Returns (0, s2)"
    by auto
  then show ?thesis
    by (simp add: raw_keys_26 raw_keys_26_19 ab_keys_board)
qed

end
